theory Spec2Isabelle
  imports Complex_Main
begin

section \<open>Numbers and data\<close>

text \<open>
  The program is TypeScript; every number in it is an IEEE double. The model reads
  numbers as mathematical reals, loop counters and sample indices as \<open>nat\<close> or \<open>int\<close>.
  Rounding, overflow and NaN are therefore outside the model, with one exception:
  where the source can divide by zero or read outside an array on a path the model
  keeps, the outcome JavaScript produces there (an infinity that is clamped, or a NaN
  that fails every comparison) is written out as a branch of its own.
\<close>

text \<open>
  \<open>AudioBuffer\<close> (Web Audio): \<open>numberOfChannels\<close> channels of \<open>length\<close> samples each.
\<close>

record AudioBuffer =
  buf_sampleRate :: real
  buf_duration :: real
  buf_length :: nat
  channels :: "real list list"

definition numberOfChannels :: "AudioBuffer \<Rightarrow> nat" where
  "numberOfChannels buffer = length (channels buffer)"

definition getChannelData :: "AudioBuffer \<Rightarrow> nat \<Rightarrow> real list" where
  "getChannelData buffer c = channels buffer ! c"

text \<open>
  The invariant of the Web Audio type: at least one channel, and every channel holds
  exactly \<open>length\<close> samples.
\<close>

definition wf_buffer :: "AudioBuffer \<Rightarrow> bool" where
  "wf_buffer buffer \<longleftrightarrow>
     channels buffer \<noteq> [] \<and> list_all (\<lambda>d. length d = buf_length buffer) (channels buffer)"

section \<open>Loudness meter: \<open>calculateTrackLoudness\<close>\<close>

definition stride :: nat where
  "stride = 1000"

text \<open>
  The inner loop \<open>for (let i = 0; i < len; i += stride)\<close>, with its two accumulators.
\<close>

function chan_loop :: "real list \<Rightarrow> nat \<Rightarrow> nat \<Rightarrow> real \<Rightarrow> nat \<Rightarrow> real \<times> nat" where
  "chan_loop data len i chanSum count =
     (if i < len
      then chan_loop data len (i + stride) (chanSum + data ! i * data ! i) (count + 1)
      else (chanSum, count))"
  by pat_completeness auto
termination
  by (relation "measure (\<lambda>(data, len, i, chanSum, count). len - i)") (auto simp: stride_def)

declare chan_loop.simps [simp del]

text \<open>The body of the outer loop over the channels.\<close>

definition chan_step :: "AudioBuffer \<Rightarrow> real \<Rightarrow> nat \<Rightarrow> real" where
  "chan_step buffer sumSq c =
     (let data = getChannelData buffer c;
          (chanSum, count) = chan_loop data (buf_length buffer) 0 0 0
      in if count > 0 then sumSq + chanSum / real count else sumSq)"

definition calculateTrackLoudness :: "AudioBuffer \<Rightarrow> real" where
  "calculateTrackLoudness buffer =
     (let numChannels = numberOfChannels buffer;
          sumSq = foldl (chan_step buffer) 0 [0..<numChannels];
          avgPower = sumSq / real numChannels;
          rms = sqrt avgPower
      in if rms < 0.00001 then - 100 else 20 * log 10 rms)"

text \<open>
  The meter as the specification words it: the mean square of every 1000th sample of a
  channel, the average of these powers over the channels, and its root.
\<close>

definition strided_count :: "nat \<Rightarrow> nat" where
  "strided_count len = (len + 999) div 1000"

definition mean_square :: "nat \<Rightarrow> real list \<Rightarrow> real" where
  "mean_square len data =
     (if len = 0 then 0
      else (\<Sum>k < strided_count len. data ! (1000 * k) * data ! (1000 * k))
             / real (strided_count len))"

definition avg_power :: "AudioBuffer \<Rightarrow> real" where
  "avg_power buffer =
     (\<Sum>d \<leftarrow> channels buffer. mean_square (buf_length buffer) d)
       / real (length (channels buffer))"

section \<open>Auto-gain resolver\<close>

text \<open>
  The arithmetic of the auto-gain effect of \<open>App\<close>: from the two loudness values to the
  pair handed to \<open>setTrackGains\<close>.
\<close>

definition gain_pair :: "real \<Rightarrow> real \<Rightarrow> real \<times> real" where
  "gain_pair dbA dbB =
     (let target = min dbA dbB;
          gainA = 10 powr ((target - dbA) / 20);
          gainB = 10 powr ((target - dbB) / 20)
      in (gainA, gainB))"

text \<open>
  A WaveSurfer instance, as far as the controller reads and writes it: the decoded
  buffer, the playback position, the media element and its volume, and the gain stage
  that \<open>applyVolumeAndPhase\<close> attaches (\<open>_audioGraph\<close>) with the value of its gain.
  \<open>attachable\<close> says whether \<open>createMediaElementSource\<close> succeeds on the element;
  when it throws, the source catches the exception and leaves the deck without a graph.
\<close>

record Deck =
  decodedData :: "AudioBuffer option"
  deckTime :: real
  hasMedia :: bool
  mediaVolume :: real
  audioGraph :: bool
  attachable :: bool
  gainValue :: real

text \<open>
  The auto-gain effect: it receives the two instance states and the current pair, and
  returns the pair that is in the state once it has run. Its second early \<open>return\<close>
  calls no setter, so the pair stays what it was.
\<close>

definition autoGainEffect :: "Deck option \<Rightarrow> Deck option \<Rightarrow> real \<times> real \<Rightarrow> real \<times> real" where
  "autoGainEffect wsInstanceA wsInstanceB trackGains =
     (case (wsInstanceA, wsInstanceB) of
        (Some a, Some b) \<Rightarrow>
          (case (decodedData a, decodedData b) of
             (Some bufA, Some bufB) \<Rightarrow>
               gain_pair (calculateTrackLoudness bufA) (calculateTrackLoudness bufB)
           | _ \<Rightarrow> trackGains)
      | _ \<Rightarrow> (1, 1))"

section \<open>Playback synchronisation controller\<close>

datatype ViewMode = comparator | analyzer | genre

datatype TrackId = IdA | IdB | IdC

text \<open>
  The five instance references of \<open>App\<close>: \<open>wsRefA\<close>, \<open>wsRefB\<close>, the two ghost decks
  \<open>wsRefDiffA\<close> and \<open>wsRefDiffB\<close> of the difference overlay, and \<open>wsRefC\<close>. Each holds
  an instance of its own, so the source's comparison \<open>ws !== masterWs\<close> of two
  instances is the comparison of the references that hold them.
\<close>

datatype DeckRef = RefA | RefB | RefDiffA | RefDiffB | RefC

text \<open>What a pending \<open>setTimeout\<close> does when it fires.\<close>

datatype TimerAction = ClearSeeking | ClearSyncing

record App =
  activeTab :: ViewMode
  trackA :: "string option"
  isPlaying :: bool
  currentTime :: real
  crossfade :: real
  autoGain :: bool
  isDiffMode :: bool
  trackGains :: "real \<times> real"
  wsRef :: "DeckRef \<Rightarrow> Deck option"
  isSeekingRef :: bool
  isSyncingRef :: bool
  timers :: "(nat \<times> TimerAction) list"

text \<open>\<open>ws.setVolume(v)\<close> and \<open>ws.setTime(t)\<close> of a WaveSurfer instance.\<close>

definition setVolume :: "real \<Rightarrow> Deck \<Rightarrow> Deck" where
  "setVolume v ws = ws\<lparr>mediaVolume := v\<rparr>"

definition setTime :: "real \<Rightarrow> Deck \<Rightarrow> Deck" where
  "setTime t ws = ws\<lparr>deckTime := t\<rparr>"

text \<open>
  \<open>applyVolumeAndPhase(ws, volume, phase, forceGraph)\<close>. A missing instance or media
  element returns at once. The gain stage is attached when it is asked for and not yet
  there; a failed attachment is caught and leaves the deck as it was. With a gain stage
  the signed gain \<open>volume * phase\<close> goes to the gain node and the element plays at
  full volume; without one the volume goes to the instance and the phase is lost.
  Every gain stage is created on the one \<open>AudioContext\<close> of \<open>audioContextRef\<close>, which
  the model does not represent.
\<close>

definition attachGraph :: "Deck \<Rightarrow> Deck" where
  "attachGraph ws = (if attachable ws then ws\<lparr>audioGraph := True, gainValue := 1\<rparr> else ws)"

definition applyVolumeAndPhase :: "Deck option \<Rightarrow> real \<Rightarrow> real \<Rightarrow> bool \<Rightarrow> Deck option" where
  "applyVolumeAndPhase wso volume phase forceGraph =
     (case wso of
        None \<Rightarrow> None
      | Some ws \<Rightarrow>
          if \<not> hasMedia ws then Some ws
          else
            let ws1 = (if (forceGraph \<or> phase = - 1) \<and> \<not> audioGraph ws
                       then attachGraph ws else ws)
            in if audioGraph ws1
               then Some (ws1\<lparr>gainValue := volume * phase, mediaVolume := 1\<rparr>)
               else Some (setVolume volume ws1))"

text \<open>
  The effect of \<open>App\<close> that applies volume and phase to the decks. \<open>composition\<close>
  is the pair of argument triples (volume, phase, forceGraph) that its comparator branch
  hands to \<open>applyVolumeAndPhase\<close> for deck A and for deck B.
\<close>

definition composition :: "App \<Rightarrow> (real \<times> real \<times> bool) \<times> (real \<times> real \<times> bool)" where
  "composition s =
     (let gA = (if autoGain s then fst (trackGains s) else 1);
          gB = (if autoGain s then snd (trackGains s) else 1)
      in if isDiffMode s
         then ((gA, 1, True), (gB, - 1, True))
         else (((1 - crossfade s) * gA, 1, False), (crossfade s * gB, 1, False)))"

definition volumeEffect :: "App \<Rightarrow> App" where
  "volumeEffect s =
     (case activeTab s of
        comparator \<Rightarrow>
          (case composition s of
             ((volA, phaseA, forceA), (volB, phaseB, forceB)) \<Rightarrow>
               let r = wsRef s;
                   r1 = r(RefA := applyVolumeAndPhase (r RefA) volA phaseA forceA,
                          RefB := applyVolumeAndPhase (r RefB) volB phaseB forceB)
               in s\<lparr>wsRef := r1(RefDiffA := map_option (setVolume 0) (r1 RefDiffA),
                                  RefDiffB := map_option (setVolume 0) (r1 RefDiffB))\<rparr>)
      | analyzer \<Rightarrow> s\<lparr>wsRef := (wsRef s)(RefC := map_option (setVolume 1) (wsRef s RefC))\<rparr>
      | genre \<Rightarrow> s)"

text \<open>
  What a deck plays: with a gain stage, the signed gain of the node (the element is at
  full volume); without one, the volume of the element, in phase.
\<close>

definition carries :: "Deck \<Rightarrow> real \<Rightarrow> real \<Rightarrow> bool" where
  "carries ws volume phase \<longleftrightarrow>
     (if audioGraph ws then gainValue ws = volume * phase \<and> mediaVolume ws = 1
      else mediaVolume ws = volume \<and> phase = 1)"

text \<open>
  A handler that a render of \<open>App\<close> creates reads two kinds of things. The refs
  (\<open>wsRefA\<close>, \<open>isSeekingRef\<close>, \<open>isSyncingRef\<close>, ...) are read when the handler runs. The
  state values \<open>activeTab\<close>, \<open>trackA\<close> and \<open>isPlaying\<close> are those of the render that
  created the handler: \<open>useCallback\<close> closes over them. \<open>render_env\<close> is what a render in
  state \<open>s\<close> closes over.
\<close>

record HandlerEnv =
  env_activeTab :: ViewMode
  env_trackA :: "string option"
  env_isPlaying :: bool

definition render_env :: "App \<Rightarrow> HandlerEnv" where
  "render_env s =
     \<lparr>env_activeTab = activeTab s, env_trackA = trackA s, env_isPlaying = isPlaying s\<rparr>"

text \<open>
  \<open>activeInstances()\<close>: the references of the view the callback was created for that
  hold an instance when it is called.
\<close>

definition activeInstances :: "ViewMode \<Rightarrow> App \<Rightarrow> DeckRef list" where
  "activeInstances tab s =
     (case tab of
        comparator \<Rightarrow> filter (\<lambda>r. wsRef s r \<noteq> None) [RefA, RefB, RefDiffA, RefDiffB]
      | analyzer \<Rightarrow> filter (\<lambda>r. wsRef s r \<noteq> None) [RefC]
      | genre \<Rightarrow> [])"

text \<open>
  The body of \<open>others.forEach\<close> in \<open>handleTimeUpdate\<close>, on the state and the log of
  the \<open>setTime\<close> calls issued so far.
\<close>

definition sync_slave ::
  "real \<Rightarrow> App \<times> (DeckRef \<times> real) list \<Rightarrow> DeckRef \<Rightarrow> App \<times> (DeckRef \<times> real) list" where
  "sync_slave masterTime acc r =
     (case wsRef (fst acc) r of
        None \<Rightarrow> acc
      | Some slave \<Rightarrow>
          let diff = \<bar>masterTime - deckTime slave\<bar>
          in if diff > 0.04
             then ((fst acc)\<lparr>isSyncingRef := True,
                              wsRef := (wsRef (fst acc))(r := Some (setTime masterTime slave))\<rparr>,
                   snd acc @ [(r, masterTime)])
             else acc)"

definition masterRef :: "TrackId \<Rightarrow> DeckRef" where
  "masterRef sourceId = (if sourceId = IdA then RefA else RefB)"

text \<open>
  \<open>handleTimeUpdate(time, sourceId)\<close> as created by a render with the captured values
  \<open>env\<close>, called in the state \<open>s\<close>: the new state and the \<open>setTime\<close> calls it issued,
  in order. The \<open>setTimeout\<close> of 10 ms is an entry added to \<open>timers\<close>.
\<close>

definition handleTimeUpdate ::
  "HandlerEnv \<Rightarrow> real \<Rightarrow> TrackId \<Rightarrow> App \<Rightarrow> App \<times> (DeckRef \<times> real) list" where
  "handleTimeUpdate env time sourceId s =
     (if isSeekingRef s then (s, [])
      else if isSyncingRef s then (s, [])
      else if env_activeTab env = analyzer then (s\<lparr>currentTime := time\<rparr>, [])
      else if env_activeTab env = genre then (s, [])
      else
        let masterId = (if env_trackA env \<noteq> None then IdA else IdB)
        in if sourceId = masterId
           then
             let s1 = s\<lparr>currentTime := time\<rparr>
             in if env_isPlaying env
                then (case wsRef s1 (masterRef sourceId) of
                        None \<Rightarrow> (s1, [])
                      | Some masterWs \<Rightarrow>
                          let masterTime = deckTime masterWs;
                              others = filter (\<lambda>r. r \<noteq> masterRef sourceId)
                                         (activeInstances (env_activeTab env) s1);
                              res = foldl (sync_slave masterTime) (s1, []) others
                          in if isSyncingRef (fst res)
                             then ((fst res)\<lparr>timers := timers (fst res) @ [(10, ClearSyncing)]\<rparr>,
                                   snd res)
                             else res)
                else (s1, [])
           else (s, []))"

text \<open>
  \<open>resetPlayback\<close> and \<open>handleTabChange\<close>. \<open>stop()\<close> puts an instance back to time 0.
  The later reset of the ruler's duration is not part of the model.
\<close>

definition resetPlayback :: "App \<Rightarrow> App" where
  "resetPlayback s =
     s\<lparr>isPlaying := False, currentTime := 0,
       wsRef := (\<lambda>r. map_option (setTime 0) (wsRef s r))\<rparr>"

definition handleTabChange :: "ViewMode \<Rightarrow> App \<Rightarrow> App" where
  "handleTabChange mode s = (resetPlayback s)\<lparr>activeTab := mode\<rparr>"

text \<open>
  \<open>TrackDeck\<close> creates its instance and registers \<open>ws.on('timeupdate', ...)\<close> in an effect
  with the dependencies \<open>[color, id, readOnly]\<close>, none of which changes while the deck is
  mounted. The listener so keeps the \<open>onTimeUpdate\<close> of the render in which the deck was
  mounted, and with it that render's \<open>handleTimeUpdate\<close>. \<open>deckTimeUpdate mounted\<close> is
  the handler a deck calls when it was mounted by the render in state \<open>mounted\<close>. The
  comparator decks are rendered only while \<open>activeTab\<close> is \<open>comparator\<close>: a render mounts
  them when \<open>App\<close> starts, in its initial state, or when \<open>handleTabChange\<close> brings the
  comparator view back.
\<close>

definition deckTimeUpdate :: "App \<Rightarrow> real \<Rightarrow> TrackId \<Rightarrow> App \<Rightarrow> App \<times> (DeckRef \<times> real) list" where
  "deckTimeUpdate mounted time sourceId s = handleTimeUpdate (render_env mounted) time sourceId s"

text \<open>A timer that fires runs its callback.\<close>

definition fire :: "TimerAction \<Rightarrow> App \<Rightarrow> App" where
  "fire a s = (case a of ClearSeeking \<Rightarrow> s\<lparr>isSeekingRef := False\<rparr>
                       | ClearSyncing \<Rightarrow> s\<lparr>isSyncingRef := False\<rparr>)"

text \<open>
  A slave that has drifted from the master's time by more than 40 ms.
\<close>

definition drifted :: "real \<Rightarrow> App \<Rightarrow> DeckRef \<Rightarrow> bool" where
  "drifted masterTime s r \<longleftrightarrow>
     (case wsRef s r of None \<Rightarrow> False | Some slave \<Rightarrow> \<bar>masterTime - deckTime slave\<bar> > 0.04)"

text \<open>
  The state \<open>App\<close> starts in (the initial values of its \<open>useState\<close> and \<open>useRef\<close>
  calls), and an instance as \<open>TrackDeck\<close> creates it: silent, with a media element and
  no gain stage, here at a given playback position.
\<close>

definition initialApp :: App where
  "initialApp =
     \<lparr>activeTab = comparator, trackA = None, isPlaying = False, currentTime = 0,
      crossfade = 0.5, autoGain = False, isDiffMode = False, trackGains = (1, 1),
      wsRef = (\<lambda>r. None), isSeekingRef = False, isSyncingRef = False, timers = []\<rparr>"

definition newDeck :: "real \<Rightarrow> Deck" where
  "newDeck t =
     \<lparr>decodedData = None, deckTime = t, hasMedia = True, mediaVolume = 0,
      audioGraph = False, attachable = True, gainValue = 1\<rparr>"

text \<open>
  The auto-gain effect in time. Its dependencies are \<open>[wsInstanceA, wsInstanceB]\<close>, and
  React runs it again after a render only when one of them is another object than
  before (\<open>Object.is\<close>); setting a state to the object it already holds changes nothing.
  An instance is therefore named by the identity of its object, a number, and
  \<open>objects\<close> gives the present content of each object.
\<close>

record GainState =
  wsInstanceA :: "nat option"
  wsInstanceB :: "nat option"
  gains :: "real \<times> real"

definition initialGainState :: GainState where
  "initialGainState = \<lparr>wsInstanceA = None, wsInstanceB = None, gains = (1, 1)\<rparr>"

definition autoGainRun :: "(nat \<Rightarrow> Deck) \<Rightarrow> GainState \<Rightarrow> GainState" where
  "autoGainRun objects st =
     st\<lparr>gains := autoGainEffect (map_option objects (wsInstanceA st))
                     (map_option objects (wsInstanceB st)) (gains st)\<rparr>"

text \<open>
  \<open>handleTrackReady(id, instance)\<close>, called by the \<open>ready\<close> event of a deck, as far as
  the auto-gain effect is concerned: it stores the instance, and the effect runs if that
  changed a dependency.
\<close>

definition handleTrackReady :: "TrackId \<Rightarrow> nat \<Rightarrow> (nat \<Rightarrow> Deck) \<Rightarrow> GainState \<Rightarrow> GainState" where
  "handleTrackReady tid obj objects st =
     (let st1 = (case tid of
                   IdA \<Rightarrow> st\<lparr>wsInstanceA := Some obj\<rparr>
                 | IdB \<Rightarrow> st\<lparr>wsInstanceB := Some obj\<rparr>
                 | IdC \<Rightarrow> st)
      in if wsInstanceA st1 = wsInstanceA st \<and> wsInstanceB st1 = wsInstanceB st
         then st1
         else autoGainRun objects st1)"

text \<open>
  \<open>TrackDeck\<close> loads a new track into the instance it already has
  (\<open>wsRef.current.load(track.url)\<close>): the object stays, its decoded buffer is replaced.
\<close>

definition loadTrack :: "nat \<Rightarrow> AudioBuffer option \<Rightarrow> (nat \<Rightarrow> Deck) \<Rightarrow> (nat \<Rightarrow> Deck)" where
  "loadTrack obj buffer objects = objects(obj := (objects obj)\<lparr>decodedData := buffer\<rparr>)"

text \<open>A mono buffer of one sample, and decks that hold nothing yet.\<close>

definition oneSample :: "real \<Rightarrow> AudioBuffer" where
  "oneSample x = \<lparr>buf_sampleRate = 44100, buf_duration = 1, buf_length = 1, channels = [[x]]\<rparr>"

definition emptyDecks :: "nat \<Rightarrow> Deck" where
  "emptyDecks obj = newDeck 0"

section \<open>Tempo estimator: \<open>detectBpmInChunk\<close>\<close>

definition downsampleRatio :: nat where
  "downsampleRatio = 256"

definition minBpm :: real where
  "minBpm = 55"

definition maxBpm :: real where
  "maxBpm = 190"

definition envelopeLength :: "real list \<Rightarrow> nat" where
  "envelopeLength data = nat \<lceil>real (length data) / real downsampleRatio\<rceil>"

text \<open>One entry of the RMS envelope: the body of the loop that fills \<open>envelope\<close>.\<close>

definition frame_rms :: "real list \<Rightarrow> nat \<Rightarrow> real" where
  "frame_rms data i =
     (let start = i * downsampleRatio;
          stop = min (start + downsampleRatio) (length data);
          sumSq = foldl (\<lambda>acc j. acc + data ! j * data ! j) 0 [start..<stop]
      in sqrt (sumSq / real (stop - start)))"

definition rms_envelope :: "real list \<Rightarrow> real list" where
  "rms_envelope data = map (frame_rms data) [0..<envelopeLength data]"

text \<open>
  The onset envelope: a zero-filled array whose entries from index 1 on are the
  half-wave rectified first difference of the envelope.
\<close>

definition onset_envelope :: "real list \<Rightarrow> real list" where
  "onset_envelope envelope =
     map (\<lambda>i. if i = 0 then 0 else max 0 (envelope ! i - envelope ! (i - 1)))
       [0..<length envelope]"

text \<open>
  The raw correlation at a lag: \<open>getCorrAt\<close>, and the same loop written out in the
  search. At a negative lag the first iteration reads \<open>onset[lag]\<close> before the array,
  which is \<open>undefined\<close>, and the sum is NaN: the model returns \<open>None\<close> for it.
\<close>

definition getCorrAt :: "real list \<Rightarrow> int \<Rightarrow> real option" where
  "getCorrAt onset l =
     (if l < 0 then None
      else Some (foldl (\<lambda>s i. s + onset ! i * onset ! (i + nat l)) 0
                   [0..<length onset - nat l]))"

text \<open>
  The weighted correlation of a lag; \<open>None\<close> is NaN. At lag 0 the tempo
  \<open>60 * envelopeRate / lag\<close> is infinite for a positive rate, its weight is
  \<open>exp(-Infinity) = 0\<close> and so is the product; for a rate that is not positive it is
  NaN. A tempo of zero has the weight 0 as well, and a negative tempo has a NaN
  logarithm.
\<close>

definition weightedSum :: "real \<Rightarrow> real list \<Rightarrow> int \<Rightarrow> real option" where
  "weightedSum envelopeRate onset lag =
     (case getCorrAt onset lag of
        None \<Rightarrow> None
      | Some corr \<Rightarrow>
          if lag = 0 then (if envelopeRate > 0 then Some 0 else None)
          else
            let bpm = 60 * envelopeRate / real_of_int lag
            in if bpm > 0 then Some (corr * exp (- ((log 2 (bpm / 110))\<^sup>2) / 0.6))
               else if bpm = 0 then Some 0
               else None)"

text \<open>
  The body of the search loop on the pair \<open>(maxWeightedCorr, bestLag)\<close>. A NaN fails
  the comparison and leaves the pair as it is.
\<close>

definition search_step :: "real \<Rightarrow> real list \<Rightarrow> real \<times> int \<Rightarrow> int \<Rightarrow> real \<times> int" where
  "search_step envelopeRate onset st lag =
     (case weightedSum envelopeRate onset lag of
        None \<Rightarrow> st
      | Some weighted \<Rightarrow> if weighted > fst st then (weighted, lag) else st)"

definition minLag :: "real \<Rightarrow> int" where
  "minLag envelopeRate = \<lfloor>(60 / maxBpm) * envelopeRate\<rfloor>"

definition maxLag :: "real \<Rightarrow> int" where
  "maxLag envelopeRate = \<lfloor>(60 / minBpm) * envelopeRate\<rfloor>"

definition search_lags :: "real \<Rightarrow> real list \<Rightarrow> real \<times> int" where
  "search_lags envelopeRate onset =
     foldl (search_step envelopeRate onset) (- 1, - 1) [minLag envelopeRate..maxLag envelopeRate]"

text \<open>
  Parabolic interpolation. A NaN among the three correlations makes the denominator
  NaN, whose test fails, and the lag stays the best lag.
\<close>

definition refineLag :: "real list \<Rightarrow> int \<Rightarrow> real" where
  "refineLag onset bestLag =
     (case (getCorrAt onset (bestLag - 1), getCorrAt onset bestLag, getCorrAt onset (bestLag + 1)) of
        (Some y1, Some y2, Some y3) \<Rightarrow>
          let denominator = y1 - 2 * y2 + y3
          in if \<bar>denominator\<bar> > 0.00001
             then real_of_int bestLag + 0.5 * (y1 - y3) / denominator
             else real_of_int bestLag
      | _ \<Rightarrow> real_of_int bestLag)"

definition clampBpm :: "real \<Rightarrow> real" where
  "clampBpm detectedBpm =
     (let d1 = (if detectedBpm < minBpm then minBpm else detectedBpm)
      in if d1 > maxBpm then maxBpm else d1)"

text \<open>
  The estimator. Its result \<open>None\<close> is the source's \<open>null\<close>, and also a NaN result,
  which the only caller treats as it treats \<open>null\<close>. A refined lag of zero divides by
  zero: the quotient is an infinity of the sign of the rate, which the clamp brings to
  the nearer bound, or NaN for a zero rate.
\<close>

definition detectBpmInChunk :: "real list \<Rightarrow> real \<Rightarrow> real option" where
  "detectBpmInChunk data sampleRate =
     (let envelopeRate = sampleRate / real downsampleRatio;
          envelope = rms_envelope data;
          onset = onset_envelope envelope;
          bestLag = snd (search_lags envelopeRate onset)
      in if bestLag = - 1 then None
         else
           let refinedLag = refineLag onset bestLag
           in if refinedLag = 0
              then (if envelopeRate > 0 then Some maxBpm
                    else if envelopeRate < 0 then Some minBpm
                    else None)
              else Some (clampBpm (60 * envelopeRate / refinedLag)))"

section \<open>Windowed tempo sequencer: \<open>analyzeBpmFromData\<close>\<close>

record BpmPoint =
  time :: real
  bpm :: real

text \<open>
  \<open>TypedArray.prototype.slice\<close>: a negative index counts from the end, and both
  indices are clamped to the array.
\<close>

definition slice :: "'a list \<Rightarrow> int \<Rightarrow> int \<Rightarrow> 'a list" where
  "slice xs start stop =
     (let len = int (length xs);
          k = (if start < 0 then max (len + start) 0 else min start len);
          final = (if stop < 0 then max (len + stop) 0 else min stop len)
      in take (nat (final - k)) (drop (nat k) xs))"

definition startSample :: "real \<Rightarrow> real \<Rightarrow> int" where
  "startSample sampleRate startTime = \<lfloor>startTime * sampleRate\<rfloor>"

definition endSample :: "real \<Rightarrow> real \<Rightarrow> real \<Rightarrow> real \<Rightarrow> int" where
  "endSample sampleRate duration windowSize startTime =
     \<lfloor>min (startTime + windowSize) duration * sampleRate\<rfloor>"

text \<open>The test before \<open>continue\<close>.\<close>

definition too_short :: "real \<Rightarrow> real \<Rightarrow> real \<Rightarrow> real \<Rightarrow> bool" where
  "too_short sampleRate duration windowSize startTime \<longleftrightarrow>
     real_of_int (endSample sampleRate duration windowSize startTime
                    - startSample sampleRate startTime) < sampleRate * 5"

text \<open>
  The two branches on the estimator's result. \<open>if (bpm)\<close> holds for a number that is
  neither zero nor NaN.
\<close>

definition emit :: "real \<Rightarrow> real option \<Rightarrow> BpmPoint list \<Rightarrow> BpmPoint list" where
  "emit startTime result points =
     (case (case result of None \<Rightarrow> None | Some b \<Rightarrow> if b = 0 then None else Some b) of
        Some b \<Rightarrow> points @ [\<lparr>time = startTime, bpm = b\<rparr>]
      | None \<Rightarrow>
          if length points > 0
          then points @ [\<lparr>time = startTime, bpm = bpm (points ! (length points - 1))\<rparr>]
          else points)"

text \<open>The body of the loop over the windows.\<close>

definition window_step ::
  "real list \<Rightarrow> real \<Rightarrow> real \<Rightarrow> real \<Rightarrow> real \<Rightarrow> BpmPoint list \<Rightarrow> BpmPoint list" where
  "window_step data sampleRate duration windowSize startTime points =
     (if too_short sampleRate duration windowSize startTime then points
      else
        let chunk = slice data (startSample sampleRate startTime)
                      (endSample sampleRate duration windowSize startTime)
        in emit startTime (detectBpmInChunk chunk sampleRate) points)"

text \<open>
  The loop \<open>for (let startTime = 0; startTime < duration; startTime += step)\<close>. Nothing
  in the source bounds \<open>step\<close> from below, so the loop need not end: not returning is
  the value \<open>None\<close>.
\<close>

partial_function (option) window_loop ::
  "real list \<Rightarrow> real \<Rightarrow> real \<Rightarrow> real \<Rightarrow> real \<Rightarrow> real \<Rightarrow> BpmPoint list \<Rightarrow> BpmPoint list option" where
  "window_loop data sampleRate duration step windowSize startTime points =
     (if startTime < duration
      then window_loop data sampleRate duration step windowSize (startTime + step)
             (window_step data sampleRate duration windowSize startTime points)
      else Some points)"

definition analyzeBpmFromData :: "real list \<Rightarrow> real \<Rightarrow> real \<Rightarrow> real \<Rightarrow> BpmPoint list option" where
  "analyzeBpmFromData data sampleRate duration interval =
     (let step = (if interval = 0 then 30 else interval);
          windowSize = max step 30
      in window_loop data sampleRate duration step windowSize 0 [])"


text \<open>
  The window starts as the specification words them: the multiples of the step in
  \<open>[0, duration)\<close>, in increasing order.
\<close>

definition window_starts :: "real \<Rightarrow> real \<Rightarrow> real list" where
  "window_starts duration step = map (\<lambda>k. real k * step) [0..<nat \<lceil>duration / step\<rceil>]"

section \<open>Loudness meter: properties\<close>

lemma chan_loop_sum:
  "chan_loop data len (1000 * j) s c =
     (s + (\<Sum>k = j..<strided_count len. data ! (1000 * k) * data ! (1000 * k)),
      c + (strided_count len - j))"
proof (induction "strided_count len - j" arbitrary: j s c)
  case 0
  then have "\<not> 1000 * j < len"
    by (simp add: strided_count_def)
  with 0 show ?case
    by (subst chan_loop.simps) simp
next
  case (Suc m)
  then have j: "j < strided_count len" by simp
  then have lt: "1000 * j < len"
    by (simp add: strided_count_def)
  from Suc have m: "m = strided_count len - Suc j" by simp
  have "chan_loop data len (1000 * j) s c =
        chan_loop data len (1000 * Suc j) (s + data ! (1000 * j) * data ! (1000 * j)) (c + 1)"
    using lt by (subst chan_loop.simps) (simp add: stride_def add.commute)
  also have "\<dots> = (s + data ! (1000 * j) * data ! (1000 * j)
                    + (\<Sum>k = Suc j..<strided_count len. data ! (1000 * k) * data ! (1000 * k)),
                  c + 1 + (strided_count len - Suc j))"
    by (rule Suc.hyps(1) [OF m])
  also have "\<dots> = (s + (\<Sum>k = j..<strided_count len. data ! (1000 * k) * data ! (1000 * k)),
                  c + (strided_count len - j))"
    using j by (simp add: sum.atLeast_Suc_lessThan)
  finally show ?case .
qed

lemma chan_loop_from_zero:
  "chan_loop data len 0 0 0 =
     ((\<Sum>k < strided_count len. data ! (1000 * k) * data ! (1000 * k)), strided_count len)"
  using chan_loop_sum [of data len 0 0 0] by (simp add: lessThan_atLeast0)

lemma strided_count_pos: "0 < strided_count len \<longleftrightarrow> 0 < len"
  by (simp add: strided_count_def) linarith

lemma chan_step_mean_square:
  "chan_step buffer sumSq c = sumSq + mean_square (buf_length buffer) (getChannelData buffer c)"
  using strided_count_pos [of "buf_length buffer"]
  by (simp add: chan_step_def chan_loop_from_zero mean_square_def Let_def)

lemma foldl_chan_step:
  "n \<le> length (channels buffer) \<Longrightarrow>
   foldl (chan_step buffer) s [0..<n] =
     s + (\<Sum>d \<leftarrow> take n (channels buffer). mean_square (buf_length buffer) d)"
proof (induction n arbitrary: s)
  case 0
  then show ?case by simp
next
  case (Suc n)
  then show ?case
    by (simp add: chan_step_mean_square getChannelData_def take_Suc_conv_app_nth)
qed

lemma loudness_avg_power:
  "calculateTrackLoudness buffer =
     (if sqrt (avg_power buffer) < 0.00001 then - 100 else 20 * log 10 (sqrt (avg_power buffer)))"
  by (simp add: calculateTrackLoudness_def numberOfChannels_def foldl_chan_step avg_power_def)

lemma db_floor: "0.00001 \<le> r \<Longrightarrow> - 100 \<le> 20 * log 10 (r::real)"
proof -
  assume r: "0.00001 \<le> r"
  have "log 10 ((10::real) powr (- 5)) = - 5"
    by (rule log_powr_cancel) simp_all
  moreover have "(10::real) powr (- 5) = 0.00001"
    by (simp add: powr_minus_divide)
  ultimately have "log 10 (0.00001::real) = - 5" by simp
  moreover have "log 10 0.00001 \<le> log 10 r"
    using r by (simp add: log_le_cancel_iff)
  ultimately show ?thesis by simp
qed

lemma mean_square_zero:
  "length data = len \<Longrightarrow> \<forall>x \<in> set data. x = 0 \<Longrightarrow> mean_square len data = 0"
proof -
  assume len: "length data = len" and z: "\<forall>x \<in> set data. x = 0"
  have "data ! (1000 * k) = 0" if "k < strided_count len" for k
  proof -
    from that have "1000 * k < len" by (simp add: strided_count_def)
    with len z show ?thesis by simp
  qed
  then show ?thesis by (simp add: mean_square_def)
qed

lemma avg_power_zero:
  assumes "wf_buffer buffer" and "\<forall>d \<in> set (channels buffer). \<forall>x \<in> set d. x = 0"
  shows "avg_power buffer = 0"
proof -
  have "mean_square (buf_length buffer) d = 0" if "d \<in> set (channels buffer)" for d
    using that assms by (intro mean_square_zero) (auto simp: wf_buffer_def list_all_iff)
  then have "map (mean_square (buf_length buffer)) (channels buffer)
             = map (\<lambda>d. 0) (channels buffer)"
    by simp
  then have "(\<Sum>d \<leftarrow> channels buffer. mean_square (buf_length buffer) d) = 0"
    by (simp only: sum_list_0)
  then show ?thesis by (simp add: avg_power_def)
qed

lemma powr10_le_one: "x \<le> 0 \<Longrightarrow> 10 powr x \<le> (1::real)"
  using powr_le_cancel_iff [of 10 x 0] by simp

lemma powr10_less_one: "x < 0 \<Longrightarrow> 10 powr x < (1::real)"
  using powr_less_cancel_iff [of 10 x 0] by simp

text \<open>
  Claim C5. For a decoded signal with at least one channel, the loudness meter returns
  \<open>20 * log10 (sqrt avgPower)\<close>, where \<open>avgPower\<close> is the average over the channels of
  the mean square of every 1000th sample, unless that root is below \<open>1e-5\<close>, where it
  returns \<open>-100\<close>. The result is never below \<open>-100\<close>, and an all-zero signal gives
  exactly \<open>-100\<close>.
\<close>

theorem loudness_meter:
  assumes "wf_buffer buffer"
  shows "calculateTrackLoudness buffer =
           (if sqrt (avg_power buffer) < 0.00001 then - 100
            else 20 * log 10 (sqrt (avg_power buffer)))
       \<and> - 100 \<le> calculateTrackLoudness buffer
       \<and> (sqrt (avg_power buffer) < 0.00001 \<longrightarrow> calculateTrackLoudness buffer = - 100)
       \<and> (list_all (list_all (\<lambda>x. x = 0)) (channels buffer)
            \<longrightarrow> calculateTrackLoudness buffer = - 100)"
proof -
  have floor: "- 100 \<le> calculateTrackLoudness buffer"
    by (simp add: loudness_avg_power db_floor)
  have zero: "calculateTrackLoudness buffer = - 100"
    if "list_all (list_all (\<lambda>x. x = 0)) (channels buffer)"
  proof -
    from that have "\<forall>d \<in> set (channels buffer). \<forall>x \<in> set d. x = 0"
      by (simp add: list_all_iff)
    with assms have "avg_power buffer = 0" by (rule avg_power_zero)
    then show ?thesis by (simp add: loudness_avg_power)
  qed
  show ?thesis
    using floor zero by (simp add: loudness_avg_power)
qed

text \<open>
  A silent stereo buffer of two samples, at the floor, and a mono buffer of one sample
  at full scale, at 0 dB.
\<close>

theorem loudness_meter_witness:
  "wf_buffer \<lparr>buf_sampleRate = 44100, buf_duration = 1, buf_length = 2,
              channels = [[0, 0], [0, 0]]\<rparr>
   \<and> calculateTrackLoudness \<lparr>buf_sampleRate = 44100, buf_duration = 1, buf_length = 2,
              channels = [[0, 0], [0, 0]]\<rparr> = - 100
   \<and> wf_buffer \<lparr>buf_sampleRate = 44100, buf_duration = 1, buf_length = 1,
              channels = [[1]]\<rparr>
   \<and> calculateTrackLoudness \<lparr>buf_sampleRate = 44100, buf_duration = 1, buf_length = 1,
              channels = [[1]]\<rparr> = 0"
  using loudness_meter [of "\<lparr>buf_sampleRate = 44100, buf_duration = 1, buf_length = 2,
              channels = [[0, 0], [0, 0]]\<rparr>"]
    loudness_meter [of "\<lparr>buf_sampleRate = 44100, buf_duration = 1, buf_length = 1,
              channels = [[1]]\<rparr>"]
  by (simp add: wf_buffer_def avg_power_def mean_square_def strided_count_def)

section \<open>Auto-gain resolver: properties\<close>

text \<open>
  Claim C2. For all loudness values \<open>dbA\<close> and \<open>dbB\<close> the gains are
  \<open>10 ^ ((min dbA dbB - dbX) / 20)\<close>. The track that is not the louder one has gain
  exactly 1, a strictly louder track has a gain strictly below 1, the larger gain is 1
  and neither gain exceeds 1.
\<close>

theorem auto_gain_resolver:
  "gain_pair dbA dbB = (10 powr ((min dbA dbB - dbA) / 20), 10 powr ((min dbA dbB - dbB) / 20))
   \<and> (dbA \<le> dbB \<longrightarrow> fst (gain_pair dbA dbB) = 1)
   \<and> (dbB \<le> dbA \<longrightarrow> snd (gain_pair dbA dbB) = 1)
   \<and> (dbB < dbA \<longrightarrow> fst (gain_pair dbA dbB) < 1)
   \<and> (dbA < dbB \<longrightarrow> snd (gain_pair dbA dbB) < 1)
   \<and> max (fst (gain_pair dbA dbB)) (snd (gain_pair dbA dbB)) = 1
   \<and> fst (gain_pair dbA dbB) \<le> 1 \<and> snd (gain_pair dbA dbB) \<le> 1"
proof (cases "dbA \<le> dbB")
  case True
  then have m: "min dbA dbB = dbA" by simp
  have "10 powr ((dbA - dbB) / 20) \<le> (1::real)"
    using True by (intro powr10_le_one) simp
  moreover have "10 powr ((dbA - dbB) / 20) < (1::real)" if "dbA < dbB"
    using that by (intro powr10_less_one) simp
  ultimately show ?thesis
    using True by (auto simp: gain_pair_def m Let_def max_def)
next
  case False
  then have m: "min dbA dbB = dbB" by simp
  have "10 powr ((dbB - dbA) / 20) < (1::real)"
    using False by (intro powr10_less_one) simp
  then show ?thesis
    using False by (auto simp: gain_pair_def m Let_def max_def)
qed

text \<open>The example of the specification: \<open>-10\<close> dB against \<open>-16\<close> dB.\<close>

theorem auto_gain_resolver_witness:
  "(- 16::real) \<le> - 10 \<and> (- 16::real) < - 10
   \<and> fst (gain_pair (- 10) (- 16)) < 1 \<and> snd (gain_pair (- 10) (- 16)) = 1"
proof -
  note r = auto_gain_resolver [of "- 10" "- 16"]
  have le: "(- 16::real) \<le> - 10" and lt: "(- 16::real) < - 10" by simp_all
  from r le have "snd (gain_pair (- 10) (- 16)) = 1" by blast
  moreover from r lt have "fst (gain_pair (- 10) (- 16)) < 1" by blast
  ultimately show ?thesis using le lt by blast
qed

lemma oneSample_loudness:
  "calculateTrackLoudness (oneSample 1) = 0" "calculateTrackLoudness (oneSample 0) = - 100"
  by (simp_all add: loudness_avg_power oneSample_def avg_power_def mean_square_def
      strided_count_def)

lemma gain_pair_full_scale_silence: "gain_pair 0 (- 100) = (1 / 100000, 1)"
proof -
  have "(10::real) powr (- 5) = 1 / 100000"
    by (simp add: powr_minus_divide)
  then show ?thesis by (simp add: gain_pair_def Let_def)
qed

lemma gain_pair_equal: "gain_pair x x = (1, 1)"
  by (simp add: gain_pair_def)

text \<open>
  Claim C9 holds of the intended behaviour and fails on the code. Deck A (object 1)
  holds a full-scale track and deck B (object 2) a silent one: the pair is
  \<open>(1/100000, 1)\<close>. Then a silent track is loaded into deck A. \<open>TrackDeck\<close> loads it into
  the object it has, so \<open>wsInstanceA\<close> is the same object before and after, the effect
  does not run, and the pair of the old buffers stays: while the new buffer is not yet
  decoded, and after its \<open>ready\<close> event too, where a run of the effect would give
  \<open>(1, 1)\<close>.
\<close>

theorem replaced_track_keeps_gains:
  "gains (handleTrackReady IdB 2
            (loadTrack 2 (Some (oneSample 0)) (loadTrack 1 (Some (oneSample 1)) emptyDecks))
            (handleTrackReady IdA 1
               (loadTrack 2 (Some (oneSample 0)) (loadTrack 1 (Some (oneSample 1)) emptyDecks))
               initialGainState))
     = (1 / 100000, 1)
   \<and> decodedData
        (loadTrack 1 None
           (loadTrack 2 (Some (oneSample 0)) (loadTrack 1 (Some (oneSample 1)) emptyDecks)) 1)
       = None
   \<and> gains (handleTrackReady IdA 1
        (loadTrack 1 (Some (oneSample 0))
           (loadTrack 2 (Some (oneSample 0)) (loadTrack 1 (Some (oneSample 1)) emptyDecks)))
        (handleTrackReady IdB 2
            (loadTrack 2 (Some (oneSample 0)) (loadTrack 1 (Some (oneSample 1)) emptyDecks))
            (handleTrackReady IdA 1
               (loadTrack 2 (Some (oneSample 0)) (loadTrack 1 (Some (oneSample 1)) emptyDecks))
               initialGainState)))
     = (1 / 100000, 1)
   \<and> gains (autoGainRun
        (loadTrack 1 (Some (oneSample 0))
           (loadTrack 2 (Some (oneSample 0)) (loadTrack 1 (Some (oneSample 1)) emptyDecks)))
        (handleTrackReady IdA 1
          (loadTrack 1 (Some (oneSample 0))
             (loadTrack 2 (Some (oneSample 0)) (loadTrack 1 (Some (oneSample 1)) emptyDecks)))
          (handleTrackReady IdB 2
              (loadTrack 2 (Some (oneSample 0)) (loadTrack 1 (Some (oneSample 1)) emptyDecks))
              (handleTrackReady IdA 1
                 (loadTrack 2 (Some (oneSample 0)) (loadTrack 1 (Some (oneSample 1)) emptyDecks))
                 initialGainState))))
     = (1, 1)"
  by (simp add: handleTrackReady_def autoGainRun_def autoGainEffect_def loadTrack_def
      initialGainState_def emptyDecks_def newDeck_def Let_def oneSample_loudness
      gain_pair_full_scale_silence gain_pair_equal)

section \<open>Playback synchronisation controller: properties\<close>

lemma applyVolumeAndPhase_carries:
  assumes "hasMedia ws"
    and "phase = 1 \<or> audioGraph ws \<or> (attachable ws \<and> (force \<or> phase = - 1))"
  shows "\<exists>ws'. applyVolumeAndPhase (Some ws) volume phase force = Some ws'
               \<and> carries ws' volume phase"
  using assms
  by (auto simp: applyVolumeAndPhase_def attachGraph_def carries_def setVolume_def Let_def)

lemma sync_slave_step:
  "sync_slave mt (s, cs) r =
     (if drifted mt s r
      then (s\<lparr>isSyncingRef := True,
              wsRef := (wsRef s)(r := map_option (setTime mt) (wsRef s r))\<rparr>,
            cs @ [(r, mt)])
      else (s, cs))"
  by (simp add: sync_slave_def drifted_def Let_def split: option.splits)

lemma foldl_sync_slave:
  "distinct rs \<Longrightarrow>
   foldl (sync_slave mt) (s, cs) rs =
     (s\<lparr>isSyncingRef := isSyncingRef s \<or> (\<exists>r \<in> set rs. drifted mt s r),
        wsRef := (\<lambda>r. if r \<in> set rs \<and> drifted mt s r
                       then map_option (setTime mt) (wsRef s r) else wsRef s r)\<rparr>,
      cs @ map (\<lambda>r. (r, mt)) (filter (drifted mt s) rs))"
proof (induction rs arbitrary: s cs)
  case Nil
  then show ?case by simp
next
  case (Cons r rs)
  then have d: "distinct rs" and nin: "r \<notin> set rs" by simp_all
  show ?case
  proof (cases "drifted mt s r")
    case False
    have w: "(\<lambda>x. if x \<in> set (r # rs) \<and> drifted mt s x
                   then map_option (setTime mt) (wsRef s x) else wsRef s x)
           = (\<lambda>x. if x \<in> set rs \<and> drifted mt s x
                   then map_option (setTime mt) (wsRef s x) else wsRef s x)"
      by (rule ext) (use False in auto)
    have b: "(\<exists>x \<in> set (r # rs). drifted mt s x) = (\<exists>x \<in> set rs. drifted mt s x)"
      using False by auto
    show ?thesis
      unfolding w b using False Cons.IH [OF d, of s cs]
      by (simp add: sync_slave_step)
  next
    case True
    let ?s1 = "s\<lparr>isSyncingRef := True,
                  wsRef := (wsRef s)(r := map_option (setTime mt) (wsRef s r))\<rparr>"
    have same: "drifted mt ?s1 x = drifted mt s x" if "x \<in> set rs" for x
      using that nin by (auto simp: drifted_def)
    then have f: "filter (drifted mt ?s1) rs = filter (drifted mt s) rs"
      by (auto intro: filter_cong)
    have b1: "(\<exists>x \<in> set rs. drifted mt ?s1 x) = (\<exists>x \<in> set rs. drifted mt s x)"
      using same by auto
    have w: "(\<lambda>x. if x \<in> set rs \<and> drifted mt ?s1 x
                   then map_option (setTime mt) (wsRef ?s1 x) else wsRef ?s1 x)
           = (\<lambda>x. if x \<in> set (r # rs) \<and> drifted mt s x
                   then map_option (setTime mt) (wsRef s x) else wsRef s x)"
    proof (rule ext)
      fix x
      show "(if x \<in> set rs \<and> drifted mt ?s1 x
             then map_option (setTime mt) (wsRef ?s1 x) else wsRef ?s1 x)
          = (if x \<in> set (r # rs) \<and> drifted mt s x
             then map_option (setTime mt) (wsRef s x) else wsRef s x)"
        using True nin same [of x] by (cases "x = r") auto
    qed
    have "foldl (sync_slave mt) (s, cs) (r # rs)
          = foldl (sync_slave mt) (?s1, cs @ [(r, mt)]) rs"
      using True by (simp add: sync_slave_step)
    also have "\<dots> = (?s1\<lparr>isSyncingRef := isSyncingRef ?s1 \<or> (\<exists>x \<in> set rs. drifted mt ?s1 x),
                          wsRef := (\<lambda>x. if x \<in> set rs \<and> drifted mt ?s1 x
                                         then map_option (setTime mt) (wsRef ?s1 x)
                                         else wsRef ?s1 x)\<rparr>,
                      (cs @ [(r, mt)]) @ map (\<lambda>x. (x, mt)) (filter (drifted mt ?s1) rs))"
      by (rule Cons.IH [OF d])
    also have "\<dots> = (s\<lparr>isSyncingRef := isSyncingRef s \<or> (\<exists>x \<in> set (r # rs). drifted mt s x),
                        wsRef := (\<lambda>x. if x \<in> set (r # rs) \<and> drifted mt s x
                                       then map_option (setTime mt) (wsRef s x)
                                       else wsRef s x)\<rparr>,
                      cs @ map (\<lambda>x. (x, mt)) (filter (drifted mt s) (r # rs)))"
      unfolding w f using True by simp
    finally show ?thesis .
  qed
qed


lemma count_distinct:
  "distinct xs \<Longrightarrow> length (filter (\<lambda>x. x = r) xs) = (if r \<in> set xs then 1 else 0)"
  by (induction xs) auto

lemma handleTimeUpdate_playing:
  assumes "\<not> isSeekingRef s" and "\<not> isSyncingRef s" and "env_activeTab env = comparator"
    and "sourceId = (if env_trackA env \<noteq> None then IdA else IdB)" and "env_isPlaying env"
    and "wsRef s (masterRef sourceId) = Some master"
    and others: "others = filter (\<lambda>r. r \<noteq> masterRef sourceId)
                      (filter (\<lambda>r. wsRef s r \<noteq> None) [RefA, RefB, RefDiffA, RefDiffB])"
    and hit: "hit = filter (drifted (deckTime master) s) others"
  shows "handleTimeUpdate env t sourceId s =
           (s\<lparr>currentTime := t,
              isSyncingRef := hit \<noteq> [],
              wsRef := (\<lambda>r. if r \<in> set hit
                             then map_option (setTime (deckTime master)) (wsRef s r)
                             else wsRef s r),
              timers := timers s @ (if hit \<noteq> [] then [(10, ClearSyncing)] else [])\<rparr>,
            map (\<lambda>r. (r, deckTime master)) hit)"
proof -
  let ?s1 = "s\<lparr>currentTime := t\<rparr>"
  let ?mt = "deckTime master"
  have ai: "filter (\<lambda>r. r \<noteq> masterRef sourceId) (activeInstances (env_activeTab env) ?s1)
            = others"
  proof -
    have "activeInstances (env_activeTab env) ?s1
          = filter (\<lambda>r. wsRef s r \<noteq> None) [RefA, RefB, RefDiffA, RefDiffB]"
      using assms(3) by (simp add: activeInstances_def)
    then show ?thesis by (simp only: others)
  qed
  have dist: "distinct others"
    unfolding others by simp
  have dr: "drifted ?mt ?s1 = drifted ?mt s"
    by (rule ext) (simp add: drifted_def)
  have ex: "(\<exists>r \<in> set others. drifted ?mt s r) = (hit \<noteq> [])"
    unfolding hit by (auto simp: filter_empty_conv)
  have w: "(\<lambda>r. if r \<in> set others \<and> drifted ?mt s r
                 then map_option (setTime ?mt) (wsRef ?s1 r) else wsRef ?s1 r)
         = (\<lambda>r. if r \<in> set hit
                 then map_option (setTime ?mt) (wsRef s r) else wsRef s r)"
    unfolding hit by (rule ext) simp
  have "foldl (sync_slave ?mt) (?s1, []) others =
        (?s1\<lparr>isSyncingRef := isSyncingRef ?s1 \<or> (\<exists>r \<in> set others. drifted ?mt ?s1 r),
             wsRef := (\<lambda>r. if r \<in> set others \<and> drifted ?mt ?s1 r
                          then map_option (setTime ?mt) (wsRef ?s1 r) else wsRef ?s1 r)\<rparr>,
         [] @ map (\<lambda>r. (r, ?mt)) (filter (drifted ?mt ?s1) others))"
    by (rule foldl_sync_slave [OF dist])
  also have "\<dots> = (s\<lparr>currentTime := t, isSyncingRef := hit \<noteq> [],
           wsRef := (\<lambda>r. if r \<in> set hit
                          then map_option (setTime ?mt) (wsRef s r)
                          else wsRef s r)\<rparr>,
         map (\<lambda>r. (r, ?mt)) hit)"
    unfolding dr using assms(2) by (simp add: ex w hit [symmetric])
  finally have fold: "foldl (sync_slave ?mt) (?s1, []) others =
        (s\<lparr>currentTime := t, isSyncingRef := hit \<noteq> [],
           wsRef := (\<lambda>r. if r \<in> set hit
                          then map_option (setTime ?mt) (wsRef s r)
                          else wsRef s r)\<rparr>,
         map (\<lambda>r. (r, ?mt)) hit)" .
  have "handleTimeUpdate env t sourceId s =
          (let res = foldl (sync_slave ?mt) (?s1, [])
                       (filter (\<lambda>r. r \<noteq> masterRef sourceId)
                          (activeInstances (env_activeTab env) ?s1))
           in if isSyncingRef (fst res)
              then ((fst res)\<lparr>timers := timers (fst res) @ [(10, ClearSyncing)]\<rparr>, snd res)
              else res)"
    using assms(1,2,3,5,6) assms(4) [symmetric]
    by (simp add: handleTimeUpdate_def Let_def)
  also have "\<dots> = (s\<lparr>currentTime := t,
              isSyncingRef := hit \<noteq> [],
              wsRef := (\<lambda>r. if r \<in> set hit
                             then map_option (setTime ?mt) (wsRef s r)
                             else wsRef s r),
              timers := timers s @ (if hit \<noteq> [] then [(10, ClearSyncing)] else [])\<rparr>,
            map (\<lambda>r. (r, ?mt)) hit)"
    unfolding ai fold by (simp add: Let_def)
  finally show ?thesis .
qed

text \<open>
  What the handler does when the render that created it was playing: every other active
  deck gets exactly one \<open>setTime\<close> call to the master's time if it has drifted by more
  than 0.04 s, and none otherwise; the syncing flag and its 10 ms timer are set exactly
  when a call was issued.
\<close>

lemma playing_handler_corrects:
  assumes "\<not> isSeekingRef s" and "\<not> isSyncingRef s" and "env_activeTab env = comparator"
    and "sourceId = (if env_trackA env \<noteq> None then IdA else IdB)" and "env_isPlaying env"
    and "wsRef s (masterRef sourceId) = Some master"
    and "handleTimeUpdate env t sourceId s = (s', calls)"
    and "r \<in> set [RefA, RefB, RefDiffA, RefDiffB]" and "r \<noteq> masterRef sourceId"
    and "wsRef s r = Some slave"
  shows "length (filter (\<lambda>c. fst c = r) calls)
           = (if \<bar>deckTime master - deckTime slave\<bar> > 0.04 then 1 else 0)
       \<and> list_all (\<lambda>c. snd c = deckTime master) calls
       \<and> wsRef s' r = Some (if \<bar>deckTime master - deckTime slave\<bar> > 0.04
                              then setTime (deckTime master) slave else slave)
       \<and> isSyncingRef s' = (calls \<noteq> [])
       \<and> timers s' = timers s @ (if calls \<noteq> [] then [(10, ClearSyncing)] else [])
       \<and> (isSyncingRef s' \<longrightarrow> handleTimeUpdate env2 t2 sourceId2 s' = (s', []))
       \<and> \<not> isSyncingRef (fire ClearSyncing s')"
proof -
  define others where "others = filter (\<lambda>r. r \<noteq> masterRef sourceId)
                      (filter (\<lambda>r. wsRef s r \<noteq> None) [RefA, RefB, RefDiffA, RefDiffB])"
  define hit where "hit = filter (drifted (deckTime master) s) others"
  note h = handleTimeUpdate_playing [OF assms(1-6) others_def hit_def, of t]
  from h assms(7) have calls: "calls = map (\<lambda>r. (r, deckTime master)) hit"
    and s': "s' = s\<lparr>currentTime := t,
              isSyncingRef := hit \<noteq> [],
              wsRef := (\<lambda>r. if r \<in> set hit
                             then map_option (setTime (deckTime master)) (wsRef s r)
                             else wsRef s r),
              timers := timers s @ (if hit \<noteq> [] then [(10, ClearSyncing)] else [])\<rparr>"
    by simp_all
  have r_others: "r \<in> set others"
    using assms(8-10) by (auto simp: others_def)
  have dist: "distinct hit"
    by (simp add: hit_def others_def)
  have r_hit: "r \<in> set hit \<longleftrightarrow> \<bar>deckTime master - deckTime slave\<bar> > 0.04"
    using r_others assms(10) by (simp add: hit_def drifted_def)
  have "filter (\<lambda>c. fst c = r) calls = map (\<lambda>r. (r, deckTime master)) (filter (\<lambda>x. x = r) hit)"
    by (simp add: calls filter_map o_def)
  then have c1: "length (filter (\<lambda>c. fst c = r) calls)
           = (if \<bar>deckTime master - deckTime slave\<bar> > 0.04 then 1 else 0)"
    using count_distinct [OF dist, of r] r_hit by simp
  have c2: "list_all (\<lambda>c. snd c = deckTime master) calls"
    by (simp add: calls list_all_iff)
  have c3: "wsRef s' r = Some (if \<bar>deckTime master - deckTime slave\<bar> > 0.04
                              then setTime (deckTime master) slave else slave)"
    using r_hit assms(10) by (simp add: s')
  have c4: "isSyncingRef s' = (calls \<noteq> [])"
    by (simp add: s' calls)
  have c5: "timers s' = timers s @ (if calls \<noteq> [] then [(10, ClearSyncing)] else [])"
    by (simp add: s' calls)
  have c6: "isSyncingRef s' \<longrightarrow> handleTimeUpdate env2 t2 sourceId2 s' = (s', [])"
    using assms(1) by (simp add: handleTimeUpdate_def s')
  have c7: "\<not> isSyncingRef (fire ClearSyncing s')"
    by (simp add: fire_def)
  from c1 c2 c3 c4 c5 c6 c7 show ?thesis by blast
qed

text \<open>
  A handler whose render was not playing issues no \<open>setTime\<close> call, whatever the state it
  is called in. The renders that mount the comparator decks are not playing: the first
  render of \<open>App\<close>, and the render after \<open>handleTabChange\<close>, which resets playback. So the
  handler a deck calls never corrects a drift.
\<close>

lemma idle_handler_no_calls:
  "\<not> env_isPlaying env \<Longrightarrow> snd (handleTimeUpdate env t sourceId s) = []"
  by (simp add: handleTimeUpdate_def Let_def)

lemma mounting_render_not_playing:
  "\<not> env_isPlaying (render_env initialApp)"
  "\<not> env_isPlaying (render_env (handleTabChange mode s0))"
  by (simp_all add: render_env_def initialApp_def handleTabChange_def resetPlayback_def)

lemma deckTimeUpdate_no_calls:
  "snd (deckTimeUpdate initialApp t sourceId s) = []"
  "snd (deckTimeUpdate (handleTabChange mode s0) t sourceId s) = []"
  unfolding deckTimeUpdate_def
  by (rule idle_handler_no_calls, rule mounting_render_not_playing)+

lemma handler_example_playing:
  "snd (handleTimeUpdate
          (render_env (initialApp\<lparr>trackA := Some ''a.wav'', isPlaying := True,
             wsRef := (\<lambda>r. None)(RefA := Some (newDeck 10), RefB := Some (newDeck 10.1))\<rparr>))
          10 IdA
          (initialApp\<lparr>trackA := Some ''a.wav'', isPlaying := True,
             wsRef := (\<lambda>r. None)(RefA := Some (newDeck 10), RefB := Some (newDeck 10.1))\<rparr>))
     = [(RefB, 10)]"
proof -
  let ?s = "initialApp\<lparr>trackA := Some ''a.wav'', isPlaying := True,
        wsRef := (\<lambda>r. None)(RefA := Some (newDeck 10), RefB := Some (newDeck 10.1))\<rparr>"
  have g: "\<not> isSeekingRef ?s" "\<not> isSyncingRef ?s" "env_activeTab (render_env ?s) = comparator"
    "IdA = (if env_trackA (render_env ?s) \<noteq> None then IdA else IdB)"
    "env_isPlaying (render_env ?s)"
    "wsRef ?s (masterRef IdA) = Some (newDeck 10)"
    by (simp_all add: initialApp_def masterRef_def render_env_def)
  have o: "[RefB] = filter (\<lambda>r. r \<noteq> masterRef IdA)
                      (filter (\<lambda>r. wsRef ?s r \<noteq> None) [RefA, RefB, RefDiffA, RefDiffB])"
    by (simp add: masterRef_def)
  have h: "[RefB] = filter (drifted (deckTime (newDeck 10)) ?s) [RefB]"
    by (simp add: drifted_def newDeck_def)
  have d: "deckTime (newDeck 10) = 10"
    by (simp add: newDeck_def)
  show ?thesis
    unfolding handleTimeUpdate_playing [OF g o h, of 10] snd_conv d by simp
qed

text \<open>
  Claim C7 holds of the intended behaviour and fails on the code. Tracks are loaded in
  both decks, mounted by the first render of \<open>App\<close>; playback has started; the master A
  is at 10 s and deck B at 10.1 s, a drift of 0.1 s. The claim has one \<open>setTime\<close> call
  bring deck B to 10 s, and the handler of the current render would issue it. The
  handler the decks call issues none, on the update of deck A and on that of deck B;
  nor does it when the decks were mounted again by a later return to the comparator.
\<close>

theorem deck_listener_skips_correction:
  "snd (deckTimeUpdate initialApp 10 IdA
          (initialApp\<lparr>trackA := Some ''a.wav'', isPlaying := True,
             wsRef := (\<lambda>r. None)(RefA := Some (newDeck 10), RefB := Some (newDeck 10.1))\<rparr>))
     = []
   \<and> snd (deckTimeUpdate initialApp 10.1 IdB
          (initialApp\<lparr>trackA := Some ''a.wav'', isPlaying := True,
             wsRef := (\<lambda>r. None)(RefA := Some (newDeck 10), RefB := Some (newDeck 10.1))\<rparr>))
     = []
   \<and> snd (deckTimeUpdate
          (handleTabChange comparator (initialApp\<lparr>trackA := Some ''a.wav''\<rparr>)) 10 IdA
          (initialApp\<lparr>trackA := Some ''a.wav'', isPlaying := True,
             wsRef := (\<lambda>r. None)(RefA := Some (newDeck 10), RefB := Some (newDeck 10.1))\<rparr>))
     = []
   \<and> snd (handleTimeUpdate
          (render_env (initialApp\<lparr>trackA := Some ''a.wav'', isPlaying := True,
             wsRef := (\<lambda>r. None)(RefA := Some (newDeck 10), RefB := Some (newDeck 10.1))\<rparr>))
          10 IdA
          (initialApp\<lparr>trackA := Some ''a.wav'', isPlaying := True,
             wsRef := (\<lambda>r. None)(RefA := Some (newDeck 10), RefB := Some (newDeck 10.1))\<rparr>))
     = [(RefB, 10)]"
  by (simp only: deckTimeUpdate_no_calls handler_example_playing snd_conv simp_thms)

lemma volumeEffect_decks:
  assumes "activeTab s = comparator"
    and "composition s = ((volA, phaseA, forceA), (volB, phaseB, forceB))"
  shows "wsRef (volumeEffect s) RefA = applyVolumeAndPhase (wsRef s RefA) volA phaseA forceA"
    and "wsRef (volumeEffect s) RefB = applyVolumeAndPhase (wsRef s RefB) volB phaseB forceB"
    and "wsRef (volumeEffect s) RefDiffA = map_option (setVolume 0) (wsRef s RefDiffA)"
    and "wsRef (volumeEffect s) RefDiffB = map_option (setVolume 0) (wsRef s RefDiffB)"
  using assms by (simp_all add: volumeEffect_def Let_def)

text \<open>
  Claim C1. In the comparator, with \<open>gA\<close> and \<open>gB\<close> the auto-gain pair when auto-gain
  is on and 1 otherwise: in differential mode deck A is set to volume \<open>gA\<close> with phase
  \<open>+1\<close> and deck B to volume \<open>gB\<close> with phase \<open>-1\<close>, whatever the crossfade; otherwise
  deck A is set to \<open>(1 - crossfade) * gA\<close> and deck B to \<open>crossfade * gB\<close>, both in
  phase. The ghost decks are set to volume 0 in both modes. A deck carries the inverted
  phase on its gain stage, so deck B must have one or be able to get one.
\<close>

theorem gain_phase_composition:
  assumes "activeTab s = comparator"
    and "gA = (if autoGain s then fst (trackGains s) else 1)"
    and "gB = (if autoGain s then snd (trackGains s) else 1)"
    and "wsRef s RefA = Some a" and "hasMedia a"
    and "wsRef s RefB = Some b" and "hasMedia b"
    and "isDiffMode s \<Longrightarrow> audioGraph b \<or> attachable b"
  shows "(isDiffMode s \<longrightarrow>
            composition s = ((gA, 1, True), (gB, - 1, True))
            \<and> (\<exists>a' b'. wsRef (volumeEffect s) RefA = Some a' \<and> carries a' gA 1
                      \<and> wsRef (volumeEffect s) RefB = Some b' \<and> carries b' gB (- 1))
            \<and> wsRef (volumeEffect (s\<lparr>crossfade := x\<rparr>)) = wsRef (volumeEffect s))
       \<and> (\<not> isDiffMode s \<longrightarrow>
            composition s = (((1 - crossfade s) * gA, 1, False), (crossfade s * gB, 1, False))
            \<and> (\<exists>a' b'. wsRef (volumeEffect s) RefA = Some a'
                      \<and> carries a' ((1 - crossfade s) * gA) 1
                      \<and> wsRef (volumeEffect s) RefB = Some b'
                      \<and> carries b' (crossfade s * gB) 1))
       \<and> map_option mediaVolume (wsRef (volumeEffect s) RefDiffA)
           = map_option (\<lambda>g. 0) (wsRef s RefDiffA)
       \<and> map_option mediaVolume (wsRef (volumeEffect s) RefDiffB)
           = map_option (\<lambda>g. 0) (wsRef s RefDiffB)"
proof -
  obtain volA phaseA forceA volB phaseB forceB
    where c: "composition s = ((volA, phaseA, forceA), (volB, phaseB, forceB))"
    by (metis prod_cases3 surj_pair)
  note eff = volumeEffect_decks [OF assms(1) c]
  have ghostA: "map_option mediaVolume (wsRef (volumeEffect s) RefDiffA)
           = map_option (\<lambda>g. 0) (wsRef s RefDiffA)"
    by (simp add: eff(3) option.map_comp o_def setVolume_def)
  have ghostB: "map_option mediaVolume (wsRef (volumeEffect s) RefDiffB)
           = map_option (\<lambda>g. 0) (wsRef s RefDiffB)"
    by (simp add: eff(4) option.map_comp o_def setVolume_def)
  have on: "composition s = ((gA, 1, True), (gB, - 1, True))
            \<and> (\<exists>a' b'. wsRef (volumeEffect s) RefA = Some a' \<and> carries a' gA 1
                      \<and> wsRef (volumeEffect s) RefB = Some b' \<and> carries b' gB (- 1))
            \<and> wsRef (volumeEffect (s\<lparr>crossfade := x\<rparr>)) = wsRef (volumeEffect s)"
    if d: "isDiffMode s"
  proof -
    have c1: "composition s = ((gA, 1, True), (gB, - 1, True))"
      using d assms(2,3) by (simp add: composition_def)
    note e = volumeEffect_decks [OF assms(1) c1]
    obtain a' where a': "applyVolumeAndPhase (Some a) gA 1 True = Some a'" "carries a' gA 1"
      using applyVolumeAndPhase_carries [OF assms(5), of 1 True gA] by auto
    obtain b' where b': "applyVolumeAndPhase (Some b) gB (- 1) True = Some b'"
        "carries b' gB (- 1)"
      using applyVolumeAndPhase_carries [OF assms(7), of "- 1" True gB] assms(8) [OF d] by auto
    have "wsRef (volumeEffect (s\<lparr>crossfade := x\<rparr>)) = wsRef (volumeEffect s)"
      using d assms(1) by (simp add: volumeEffect_def composition_def Let_def)
    with c1 a' b' e(1,2) assms(4,6) show ?thesis by auto
  qed
  have off: "composition s = (((1 - crossfade s) * gA, 1, False), (crossfade s * gB, 1, False))
            \<and> (\<exists>a' b'. wsRef (volumeEffect s) RefA = Some a'
                      \<and> carries a' ((1 - crossfade s) * gA) 1
                      \<and> wsRef (volumeEffect s) RefB = Some b'
                      \<and> carries b' (crossfade s * gB) 1)"
    if d: "\<not> isDiffMode s"
  proof -
    have c1: "composition s
                = (((1 - crossfade s) * gA, 1, False), (crossfade s * gB, 1, False))"
      using d assms(2,3) by (simp add: composition_def)
    note e = volumeEffect_decks [OF assms(1) c1]
    obtain a' where a': "applyVolumeAndPhase (Some a) ((1 - crossfade s) * gA) 1 False = Some a'"
        "carries a' ((1 - crossfade s) * gA) 1"
      using applyVolumeAndPhase_carries [OF assms(5), of 1 False] by blast
    obtain b' where b': "applyVolumeAndPhase (Some b) (crossfade s * gB) 1 False = Some b'"
        "carries b' (crossfade s * gB) 1"
      using applyVolumeAndPhase_carries [OF assms(7), of 1 False] by blast
    from c1 a' b' e(1,2) assms(4,6) show ?thesis by auto
  qed
  from on off ghostA ghostB show ?thesis by blast
qed

text \<open>
  Differential mode with the auto-gain pair \<open>(1/2, 1)\<close>, two fresh decks and one ghost.
\<close>

theorem gain_phase_composition_witness:
  "composition (initialApp\<lparr>isDiffMode := True, autoGain := True, trackGains := (1 / 2, 1),
        wsRef := (\<lambda>r. None)(RefA := Some (newDeck 0), RefB := Some (newDeck 0),
                              RefDiffA := Some (newDeck 0))\<rparr>)
     = ((1 / 2, 1, True), (1, - 1, True))
   \<and> map_option gainValue (wsRef (volumeEffect
       (initialApp\<lparr>isDiffMode := True, autoGain := True, trackGains := (1 / 2, 1),
        wsRef := (\<lambda>r. None)(RefA := Some (newDeck 0), RefB := Some (newDeck 0),
                              RefDiffA := Some (newDeck 0))\<rparr>)) RefB) = Some (- 1)
   \<and> map_option mediaVolume (wsRef (volumeEffect
       (initialApp\<lparr>isDiffMode := True, autoGain := True, trackGains := (1 / 2, 1),
        wsRef := (\<lambda>r. None)(RefA := Some (newDeck 0), RefB := Some (newDeck 0),
                              RefDiffA := Some (newDeck 0))\<rparr>)) RefDiffA) = Some 0"
proof -
  let ?s = "initialApp\<lparr>isDiffMode := True, autoGain := True, trackGains := (1 / 2, 1),
        wsRef := (\<lambda>r. None)(RefA := Some (newDeck 0), RefB := Some (newDeck 0),
                              RefDiffA := Some (newDeck 0))\<rparr>"
  have h: "activeTab ?s = comparator"
    "1 / 2 = (if autoGain ?s then fst (trackGains ?s) else 1)"
    "1 = (if autoGain ?s then snd (trackGains ?s) else 1)"
    "wsRef ?s RefA = Some (newDeck 0)" "hasMedia (newDeck 0)"
    "wsRef ?s RefB = Some (newDeck 0)" "hasMedia (newDeck 0)"
    by (simp_all add: initialApp_def newDeck_def)
  have g: "audioGraph (newDeck 0) \<or> attachable (newDeck 0)"
    by (simp add: newDeck_def)
  have d: "isDiffMode ?s" by simp
  note t = gain_phase_composition [OF h g, of 0]
  from t d have c: "composition ?s = ((1 / 2, 1, True), (1, - 1, True))" by blast
  from t d obtain b' where b': "wsRef (volumeEffect ?s) RefB = Some b'" "carries b' 1 (- 1)"
    by blast
  have gr: "map_option audioGraph (wsRef (volumeEffect ?s) RefB) = Some True"
    by (simp add: volumeEffect_def composition_def initialApp_def newDeck_def
        applyVolumeAndPhase_def attachGraph_def)
  from b' gr have "gainValue b' = - 1"
    by (simp add: carries_def)
  with b' have gv: "map_option gainValue (wsRef (volumeEffect ?s) RefB) = Some (- 1)" by simp
  from t have "map_option mediaVolume (wsRef (volumeEffect ?s) RefDiffA)
           = map_option (\<lambda>g. 0) (wsRef ?s RefDiffA)" by blast
  then have gh: "map_option mediaVolume (wsRef (volumeEffect ?s) RefDiffA) = Some 0" by simp
  from c gv gh show ?thesis by blast
qed

section \<open>Windowed tempo sequencer and estimator: properties\<close>

lemma window_loop_diverges:
  assumes "step \<le> 0" and "startTime < duration"
  shows "window_loop data sampleRate duration step windowSize startTime points = None"
proof -
  have "\<not> (st \<le> 0 \<and> t < dur)"
    if "window_loop d sr dur st w t pts = Some res" for d sr dur st w t pts res
    by (rule window_loop.raw_induct
          [where P = "\<lambda>d sr dur st w t pts res. \<not> (st \<le> 0 \<and> t < dur)", OF _ that])
       (fastforce split: if_splits)
  with assms show ?thesis
    by (cases "window_loop data sampleRate duration step windowSize startTime points") auto
qed

lemma window_loop_steps:
  assumes "0 < step"
  shows "window_loop data sampleRate duration step windowSize t0 points =
           Some (foldl (\<lambda>pts t. window_step data sampleRate duration windowSize t pts) points
                   (map (\<lambda>k. t0 + real k * step) [0..<nat \<lceil>(duration - t0) / step\<rceil>]))"
proof (induction "nat \<lceil>(duration - t0) / step\<rceil>" arbitrary: t0 points)
  case 0
  then have "(duration - t0) / step \<le> 0"
    by (simp add: ceiling_le_zero)
  with assms have "\<not> t0 < duration"
    by (simp add: divide_le_0_iff)
  with 0 show ?case
    by (subst window_loop.simps) simp
next
  case (Suc n)
  then have "0 < \<lceil>(duration - t0) / step\<rceil>"
    by linarith
  then have "0 < (duration - t0) / step"
    by (simp only: zero_less_ceiling)
  with assms have lt: "t0 < duration"
    by (simp add: zero_less_divide_iff)
  have "(duration - (t0 + step)) / step = (duration - t0) / step - 1"
    using assms by (simp add: field_simps)
  then have n: "n = nat \<lceil>(duration - (t0 + step)) / step\<rceil>"
    using Suc.hyps(2) by simp
  have shift: "map (\<lambda>k. t0 + real k * step) [0..<Suc n]
             = t0 # map (\<lambda>k. (t0 + step) + real k * step) [0..<n]"
    by (simp add: map_upt_Suc algebra_simps del: upt_Suc)
  show ?case
    using lt Suc.hyps(1) [OF n]
    by (subst window_loop.simps) (simp add: Suc.hyps(2) [symmetric] n [symmetric] shift del: upt_Suc)
qed

lemma analyzeBpmFromData_steps:
  assumes "0 \<le> interval" and "step = (if interval = 0 then 30 else interval)"
  shows "analyzeBpmFromData data sampleRate duration interval =
           Some (foldl (\<lambda>pts t. window_step data sampleRate duration (max step 30) t pts) []
                   (window_starts duration step))"
proof -
  from assms have "0 < step" by auto
  from window_loop_steps [OF this, of data sampleRate duration "max step 30" 0 "[]"] assms(2)
  show ?thesis
    by (simp add: analyzeBpmFromData_def window_starts_def Let_def)
qed


lemma clampBpm_bounds: "minBpm \<le> clampBpm x \<and> clampBpm x \<le> maxBpm"
  by (simp add: clampBpm_def minBpm_def maxBpm_def Let_def)

lemma detectBpmInChunk_bounds:
  "detectBpmInChunk data sampleRate = Some b \<Longrightarrow> minBpm \<le> b \<and> b \<le> maxBpm"
  using clampBpm_bounds
  by (auto simp: detectBpmInChunk_def Let_def minBpm_def maxBpm_def split: if_splits)

lemma foldl_add_nonneg:
  "(\<And>i. i \<in> set xs \<Longrightarrow> 0 \<le> f i) \<Longrightarrow> 0 \<le> s \<Longrightarrow> 0 \<le> foldl (\<lambda>s i. s + f i) s xs"
  for f :: "nat \<Rightarrow> real"
  by (induction xs arbitrary: s) simp_all

lemma onset_envelope_nonneg:
  "i < length (onset_envelope envelope) \<Longrightarrow> 0 \<le> onset_envelope envelope ! i"
  by (simp add: onset_envelope_def)

lemma getCorrAt_nonneg:
  assumes "0 \<le> l"
  shows "\<exists>c. getCorrAt (onset_envelope envelope) l = Some c \<and> 0 \<le> c"
proof -
  let ?on = "onset_envelope envelope"
  have "0 \<le> ?on ! i * ?on ! (i + nat l)" if "i \<in> set [0..<length ?on - nat l]" for i
  proof -
    from that have "i < length ?on" and "i + nat l < length ?on" by auto
    then show ?thesis by (intro mult_nonneg_nonneg onset_envelope_nonneg)
  qed
  then have "0 \<le> foldl (\<lambda>s i. s + ?on ! i * ?on ! (i + nat l)) 0 [0..<length ?on - nat l]"
    by (intro foldl_add_nonneg) simp_all
  with assms show ?thesis by (simp add: getCorrAt_def)
qed

lemma weightedSum_nonneg:
  assumes "0 < envelopeRate" and "0 \<le> lag"
  shows "\<exists>w. weightedSum envelopeRate (onset_envelope envelope) lag = Some w \<and> 0 \<le> w"
proof -
  from getCorrAt_nonneg [OF assms(2)] obtain c
    where c: "getCorrAt (onset_envelope envelope) lag = Some c" "0 \<le> c" by blast
  show ?thesis
  proof (cases "lag = 0")
    case True
    with c assms show ?thesis by (simp add: weightedSum_def)
  next
    case False
    with assms have "0 < 60 * envelopeRate / real_of_int lag" by simp
    with c False show ?thesis by (simp add: weightedSum_def Let_def)
  qed
qed

lemma lag_range:
  assumes "0 < envelopeRate"
  shows "0 \<le> minLag envelopeRate" and "minLag envelopeRate \<le> maxLag envelopeRate"
proof -
  show "0 \<le> minLag envelopeRate"
    using assms by (simp add: minLag_def maxBpm_def)
  have "60 / maxBpm * envelopeRate \<le> 60 / minBpm * envelopeRate"
    using assms by (simp add: minBpm_def maxBpm_def)
  then show "minLag envelopeRate \<le> maxLag envelopeRate"
    unfolding minLag_def maxLag_def by (rule floor_mono)
qed

lemma search_step_keeps:
  assumes "0 < envelopeRate" and "0 \<le> lag" and "0 \<le> snd st"
  shows "0 \<le> snd (search_step envelopeRate (onset_envelope envelope) st lag)"
  using weightedSum_nonneg [OF assms(1,2), of envelope] assms(2,3)
  by (auto simp: search_step_def)

lemma search_fold_keeps:
  assumes "0 < envelopeRate"
  shows "(\<And>lag. lag \<in> set lags \<Longrightarrow> 0 \<le> lag) \<Longrightarrow> 0 \<le> snd st \<Longrightarrow>
         0 \<le> snd (foldl (search_step envelopeRate (onset_envelope envelope)) st lags)"
proof (induction lags arbitrary: st)
  case Nil
  then show ?case by simp
next
  case (Cons lag lags)
  have "0 \<le> snd (search_step envelopeRate (onset_envelope envelope) st lag)"
    using assms Cons.prems by (intro search_step_keeps) simp_all
  with Cons show ?case by simp
qed

lemma search_lags_selects:
  assumes "0 < envelopeRate"
  shows "0 \<le> snd (search_lags envelopeRate (onset_envelope envelope))"
proof -
  note r = lag_range [OF assms]
  from weightedSum_nonneg [OF assms r(1), of envelope] obtain w
    where w: "weightedSum envelopeRate (onset_envelope envelope) (minLag envelopeRate) = Some w"
      "0 \<le> w" by blast
  have first: "search_step envelopeRate (onset_envelope envelope) (- 1, - 1) (minLag envelopeRate)
               = (w, minLag envelopeRate)"
    using w by (simp add: search_step_def)
  have range: "[minLag envelopeRate..maxLag envelopeRate]
               = minLag envelopeRate # [minLag envelopeRate + 1..maxLag envelopeRate]"
    using r(2) by (rule upto_rec1)
  have "0 \<le> snd (foldl (search_step envelopeRate (onset_envelope envelope))
                    (w, minLag envelopeRate) [minLag envelopeRate + 1..maxLag envelopeRate])"
    using r(1) by (intro search_fold_keeps [OF assms]) auto
  then show ?thesis
    by (simp add: search_lags_def range first)
qed

lemma detectBpmInChunk_some:
  assumes "0 < sampleRate"
  shows "\<exists>b. detectBpmInChunk data sampleRate = Some b"
proof -
  have rate: "0 < sampleRate / real downsampleRatio"
    using assms by (simp add: downsampleRatio_def)
  from search_lags_selects [OF rate, of "rms_envelope data"]
  have "snd (search_lags (sampleRate / real downsampleRatio)
               (onset_envelope (rms_envelope data))) \<noteq> - 1"
    by simp
  with rate show ?thesis
    by (simp add: detectBpmInChunk_def Let_def)
qed


lemma detectBpmInChunk_rate_one: "detectBpmInChunk data 1 = Some 190"
proof -
  let ?on = "onset_envelope (rms_envelope data)"
  have lags: "minLag (1 / 256) = 0" "maxLag (1 / 256) = 0"
    by (simp_all add: minLag_def maxLag_def minBpm_def maxBpm_def)
  obtain c where c: "getCorrAt ?on 0 = Some c"
    by (simp add: getCorrAt_def)
  have w: "weightedSum (1 / 256) ?on 0 = Some 0"
    using c by (simp add: weightedSum_def)
  have "search_lags (1 / 256) ?on = (0, 0)"
    by (simp add: search_lags_def lags search_step_def w)
  moreover have "refineLag ?on 0 = 0"
    by (simp add: refineLag_def getCorrAt_def)
  ultimately show ?thesis
    by (simp add: detectBpmInChunk_def downsampleRatio_def maxBpm_def Let_def)
qed

lemma run_ten_by_five:
  "analyzeBpmFromData (replicate 10 0) 1 10 5
     = Some [\<lparr>time = 0, bpm = 190\<rparr>, \<lparr>time = 5, bpm = 190\<rparr>]"
proof -
  have ws: "window_starts 10 5 = [0, 5]"
    by (simp add: window_starts_def numeral_2_eq_2)
  have s0: "\<not> too_short 1 10 30 0" and s5: "\<not> too_short 1 10 30 5"
    by (simp_all add: too_short_def startSample_def endSample_def)
  show ?thesis
    using analyzeBpmFromData_steps [of 5 5 "replicate 10 0" 1 10]
    by (simp add: ws window_step_def s0 s5 detectBpmInChunk_rate_one emit_def)
qed

lemma run_fifty_by_thirty:
  "analyzeBpmFromData (replicate 50 0) 1 50 30
     = Some [\<lparr>time = 0, bpm = 190\<rparr>, \<lparr>time = 30, bpm = 190\<rparr>]"
proof -
  have "\<lceil>50 / 30 :: real\<rceil> = 2" by (simp add: ceiling_eq_iff)
  then have ws: "window_starts 50 30 = [0, 30]"
    by (simp add: window_starts_def numeral_2_eq_2)
  have s0: "\<not> too_short 1 50 30 0" and s30: "\<not> too_short 1 50 30 30"
    by (simp_all add: too_short_def startSample_def endSample_def)
  show ?thesis
    using analyzeBpmFromData_steps [of 30 30 "replicate 50 0" 1 50]
    by (simp add: ws window_step_def s0 s30 detectBpmInChunk_rate_one emit_def)
qed


lemma emit_invariant:
  assumes "sorted_wrt (<) (map time pts)"
    and "list_all (\<lambda>p. time p < t) pts"
    and "list_all (\<lambda>p. minBpm \<le> bpm p \<and> bpm p \<le> maxBpm) pts"
    and "\<And>b. r = Some b \<Longrightarrow> minBpm \<le> b \<and> b \<le> maxBpm"
  shows "sorted_wrt (<) (map time (emit t r pts))"
    and "list_all (\<lambda>p. time p \<le> t) (emit t r pts)"
    and "list_all (\<lambda>p. minBpm \<le> bpm p \<and> bpm p \<le> maxBpm) (emit t r pts)"
proof -
  have le: "list_all (\<lambda>p. time p \<le> t) pts"
    using assms(2) by (simp add: list_all_iff less_imp_le)
  have lst: "minBpm \<le> bpm (pts ! (length pts - 1)) \<and> bpm (pts ! (length pts - 1)) \<le> maxBpm"
    if "pts \<noteq> []"
    using that assms(3) by (simp add: list_all_length)
  have app: "sorted_wrt (<) (map time (pts @ [\<lparr>time = t, bpm = v\<rparr>]))" for v
    using assms(1,2) by (simp add: sorted_wrt_append list_all_iff)
  show "sorted_wrt (<) (map time (emit t r pts))"
    using app assms(1) by (simp add: emit_def split: option.splits)
  show "list_all (\<lambda>p. time p \<le> t) (emit t r pts)"
    using le by (simp add: emit_def split: option.splits)
  show "list_all (\<lambda>p. minBpm \<le> bpm p \<and> bpm p \<le> maxBpm) (emit t r pts)"
    using assms(3,4) lst by (auto simp: emit_def split: option.splits if_splits)
qed

lemma window_step_invariant:
  assumes "sorted_wrt (<) (map time pts)"
    and "list_all (\<lambda>p. time p < t) pts"
    and "list_all (\<lambda>p. minBpm \<le> bpm p \<and> bpm p \<le> maxBpm) pts"
  shows "sorted_wrt (<) (map time (window_step data sampleRate duration windowSize t pts))"
    and "list_all (\<lambda>p. time p \<le> t) (window_step data sampleRate duration windowSize t pts)"
    and "list_all (\<lambda>p. minBpm \<le> bpm p \<and> bpm p \<le> maxBpm)
           (window_step data sampleRate duration windowSize t pts)"
proof -
  have le: "list_all (\<lambda>p. time p \<le> t) pts"
    using assms(2) by (simp add: list_all_iff less_imp_le)
  note e = emit_invariant [OF assms detectBpmInChunk_bounds]
  show "sorted_wrt (<) (map time (window_step data sampleRate duration windowSize t pts))"
    using assms(1) e(1) by (simp add: window_step_def Let_def)
  show "list_all (\<lambda>p. time p \<le> t) (window_step data sampleRate duration windowSize t pts)"
    using le e(2) by (simp add: window_step_def Let_def)
  show "list_all (\<lambda>p. minBpm \<le> bpm p \<and> bpm p \<le> maxBpm)
           (window_step data sampleRate duration windowSize t pts)"
    using assms(3) e(3) by (simp add: window_step_def Let_def)
qed

lemma foldl_window_step_invariant:
  "sorted_wrt (<) ts \<Longrightarrow> sorted_wrt (<) (map time pts) \<Longrightarrow>
   list_all (\<lambda>p. list_all (\<lambda>t. time p < t) ts) pts \<Longrightarrow>
   list_all (\<lambda>p. minBpm \<le> bpm p \<and> bpm p \<le> maxBpm) pts \<Longrightarrow>
   sorted_wrt (<) (map time
      (foldl (\<lambda>pts t. window_step data sampleRate duration windowSize t pts) pts ts))
   \<and> list_all (\<lambda>p. minBpm \<le> bpm p \<and> bpm p \<le> maxBpm)
      (foldl (\<lambda>pts t. window_step data sampleRate duration windowSize t pts) pts ts)"
proof (induction ts arbitrary: pts)
  case Nil
  then show ?case by simp
next
  case (Cons t ts)
  let ?pts = "window_step data sampleRate duration windowSize t pts"
  have before: "list_all (\<lambda>p. time p < t) pts"
    using Cons.prems(3) by (simp add: list_all_iff)
  note w = window_step_invariant [OF Cons.prems(2) before Cons.prems(4),
      of data sampleRate duration windowSize]
  have later: "list_all (\<lambda>p. list_all (\<lambda>u. time p < u) ts) ?pts"
    using w(2) Cons.prems(1) by (fastforce simp: list_all_iff)
  have "sorted_wrt (<) ts" using Cons.prems(1) by simp
  from Cons.IH [OF this w(1) later w(3)] show ?case by simp
qed

lemma window_starts_index:
  assumes "0 < step"
  shows "k < nat \<lceil>duration / step\<rceil> \<longleftrightarrow> real k * step < duration"
proof -
  have "k < nat \<lceil>duration / step\<rceil> \<longleftrightarrow> int k < \<lceil>duration / step\<rceil>"
    by (simp only: zless_nat_eq_int_zless)
  also have "\<dots> \<longleftrightarrow> real_of_int (int k) < duration / step"
    by (rule less_ceiling_iff)
  also have "\<dots> \<longleftrightarrow> real k * step < duration"
    using assms by (simp add: pos_less_divide_eq)
  finally show ?thesis .
qed


lemma window_starts_member:
  assumes "0 < step"
  shows "t \<in> set (window_starts duration step) \<longleftrightarrow> (\<exists>k::nat. t = real k * step \<and> t < duration)"
proof
  assume "t \<in> set (window_starts duration step)"
  then obtain k where "k < nat \<lceil>duration / step\<rceil>" and t: "t = real k * step"
    unfolding window_starts_def by auto
  then have "real k * step < duration"
    by (simp only: window_starts_index [OF assms])
  with t show "\<exists>k::nat. t = real k * step \<and> t < duration" by blast
next
  assume "\<exists>k::nat. t = real k * step \<and> t < duration"
  then obtain k :: nat where t: "t = real k * step" and "real k * step < duration" by blast
  then have "k < nat \<lceil>duration / step\<rceil>"
    by (simp only: window_starts_index [OF assms])
  with t show "t \<in> set (window_starts duration step)"
    unfolding window_starts_def by auto
qed

lemma window_starts_sorted:
  assumes "0 < step"
  shows "sorted_wrt (<) (window_starts duration step)"
proof -
  have "sorted_wrt (\<lambda>j k. real j * step < real k * step) [0..<nat \<lceil>duration / step\<rceil>]"
    by (rule sorted_wrt_mono_rel [OF _ sorted_wrt_upt]) (use assms in simp)
  then show ?thesis
    unfolding window_starts_def sorted_wrt_map .
qed


lemma slice_length:
  assumes "0 \<le> start" and "start \<le> stop" and "stop \<le> int (length xs)"
  shows "length (slice xs start stop) = nat (stop - start)"
  using assms by (simp add: slice_def Let_def min_def) linarith

text \<open>
  Claim C3. For every filtered input, duration and interval, a timeline that the
  sequencer returns is strictly increasing in its time field and every point's bpm lies
  in \<open>[55, 190]\<close>; the estimator's own result, when it has one, lies in that range.
  For an interval that is not negative the sequencer does return a timeline.
\<close>

theorem timeline_increasing_bounded:
  "(0 \<le> interval \<longrightarrow>
      (\<exists>timeline. analyzeBpmFromData data sampleRate duration interval = Some timeline))
   \<and> (analyzeBpmFromData data sampleRate duration interval = Some points \<longrightarrow>
        sorted_wrt (<) (map time points)
        \<and> list_all (\<lambda>p. 55 \<le> bpm p \<and> bpm p \<le> 190) points)
   \<and> (detectBpmInChunk chunk rate = Some b \<longrightarrow> 55 \<le> b \<and> b \<le> 190)"
proof -
  define step where "step = (if interval = 0 then 30 else interval)"
  have est: "detectBpmInChunk chunk rate = Some b \<longrightarrow> 55 \<le> b \<and> b \<le> 190"
    using detectBpmInChunk_bounds [of chunk rate b] by (simp add: minBpm_def maxBpm_def)
  have total: "\<exists>timeline. analyzeBpmFromData data sampleRate duration interval = Some timeline"
    if "0 \<le> interval"
    using analyzeBpmFromData_steps [OF that step_def, of data sampleRate duration] by blast
  have ok: "sorted_wrt (<) (map time points)
        \<and> list_all (\<lambda>p. 55 \<le> bpm p \<and> bpm p \<le> 190) points"
    if run: "analyzeBpmFromData data sampleRate duration interval = Some points"
  proof (cases "0 \<le> interval")
    case True
    then have pos: "0 < step" by (simp add: step_def)
    from analyzeBpmFromData_steps [OF True step_def, of data sampleRate duration] run
    have "points = foldl (\<lambda>pts t. window_step data sampleRate duration (max step 30) t pts) []
                     (window_starts duration step)"
      by simp
    with foldl_window_step_invariant [OF window_starts_sorted [OF pos, of duration],
        of "[]" data sampleRate duration "max step 30"]
    show ?thesis
      by (simp add: minBpm_def maxBpm_def)
  next
    case False
    then have neg: "step \<le> 0" by (simp add: step_def)
    have loop: "window_loop data sampleRate duration step (max step 30) 0 [] = Some points"
      using run by (simp add: analyzeBpmFromData_def step_def Let_def)
    have "\<not> 0 < duration"
      using window_loop_diverges [OF neg, of 0 duration data sampleRate "max step 30" "[]"] loop
      by auto
    with loop have "points = []"
      by (subst (asm) window_loop.simps) simp
    then show ?thesis by simp
  qed
  from est total ok show ?thesis by blast
qed

text \<open>Ten samples at 1 Hz, analysed every 5 s: two points.\<close>

theorem timeline_increasing_bounded_witness:
  "(0::real) \<le> 5
   \<and> analyzeBpmFromData (replicate 10 0) 1 10 5
       = Some [\<lparr>time = 0, bpm = 190\<rparr>, \<lparr>time = 5, bpm = 190\<rparr>]
   \<and> sorted_wrt (<) (map time [\<lparr>time = 0, bpm = 190\<rparr>, \<lparr>time = 5, bpm = 190\<rparr>])
   \<and> list_all (\<lambda>p. 55 \<le> bpm p \<and> bpm p \<le> 190)
        [\<lparr>time = 0, bpm = 190\<rparr>, \<lparr>time = 5, bpm = 190\<rparr>]"
proof -
  note t = timeline_increasing_bounded [where data = "replicate 10 0" and sampleRate = 1
      and duration = 10 and interval = 5
      and points = "[\<lparr>time = 0, bpm = 190\<rparr>, \<lparr>time = 5, bpm = 190\<rparr>]"]
  have "(0::real) \<le> 5" by simp
  with t run_ten_by_five show ?thesis by blast
qed

text \<open>
  Claim C4, as stated, fails: a window is cut at the end of the track. In a track of
  50 s at 1 Hz analysed every 30 s, the window that starts at 30 s is not skipped, emits
  a point, and holds 20 s of audio, not \<open>max(step, 30) = 30\<close> s.
\<close>

theorem window_truncated_counterexample:
  "analyzeBpmFromData (replicate 50 0) 1 50 30
     = Some [\<lparr>time = 0, bpm = 190\<rparr>, \<lparr>time = 30, bpm = 190\<rparr>]
   \<and> \<not> too_short 1 50 (max 30 30) 30
   \<and> length (slice (replicate 50 (0::real)) (startSample 1 30) (endSample 1 50 (max 30 30) 30))
       = 20
   \<and> real (length (slice (replicate 50 (0::real)) (startSample 1 30)
                      (endSample 1 50 (max 30 30) 30))) < max 30 30 * 1"
  by (simp add: run_fifty_by_thirty too_short_def startSample_def endSample_def slice_def)

text \<open>
  Claim C4, amended. With \<open>step = interval\<close>, or 30 s when the interval is 0, and a
  non-negative interval, the sequencer runs its loop body once at every multiple of the
  step in \<open>[0, duration)\<close>, in increasing order. The window that starts at \<open>t\<close> runs from
  sample \<open>\<lfloor>t * sampleRate\<rfloor>\<close> to sample \<open>\<lfloor>min(t + max(step, 30), duration) * sampleRate\<rfloor>\<close>:
  \<open>max(step, 30)\<close> seconds of audio, cut at the end of the track. A window of fewer than
  \<open>5 * sampleRate\<close> samples is skipped and leaves the timeline as it is; any other
  window is handed to the estimator.
\<close>

theorem sequencer_windows:
  assumes "0 \<le> interval"
    and "step = (if interval = 0 then 30 else interval)"
    and "windowSize = max step 30"
  shows "analyzeBpmFromData data sampleRate duration interval =
           Some (foldl (\<lambda>pts t. window_step data sampleRate duration windowSize t pts) []
                   (window_starts duration step))
       \<and> (t \<in> set (window_starts duration step)
            \<longleftrightarrow> (\<exists>k::nat. t = real k * step \<and> t < duration))
       \<and> sorted_wrt (<) (window_starts duration step)
       \<and> window_step data sampleRate duration windowSize t pts =
           (if real_of_int (\<lfloor>min (t + windowSize) duration * sampleRate\<rfloor> - \<lfloor>t * sampleRate\<rfloor>)
                 < sampleRate * 5
            then pts
            else emit t (detectBpmInChunk
                           (slice data \<lfloor>t * sampleRate\<rfloor>
                              \<lfloor>min (t + windowSize) duration * sampleRate\<rfloor>) sampleRate) pts)
       \<and> (0 \<le> \<lfloor>t * sampleRate\<rfloor>
            \<and> \<lfloor>t * sampleRate\<rfloor> \<le> \<lfloor>min (t + windowSize) duration * sampleRate\<rfloor>
            \<and> \<lfloor>min (t + windowSize) duration * sampleRate\<rfloor> \<le> int (length data)
          \<longrightarrow> length (slice data \<lfloor>t * sampleRate\<rfloor>
                        \<lfloor>min (t + windowSize) duration * sampleRate\<rfloor>)
              = nat (\<lfloor>min (t + windowSize) duration * sampleRate\<rfloor> - \<lfloor>t * sampleRate\<rfloor>))"
proof -
  from assms(1,2) have pos: "0 < step" by auto
  have run: "analyzeBpmFromData data sampleRate duration interval =
           Some (foldl (\<lambda>pts t. window_step data sampleRate duration windowSize t pts) []
                   (window_starts duration step))"
    unfolding assms(3) by (rule analyzeBpmFromData_steps [OF assms(1,2)])
  have body: "window_step data sampleRate duration windowSize t pts =
           (if real_of_int (\<lfloor>min (t + windowSize) duration * sampleRate\<rfloor> - \<lfloor>t * sampleRate\<rfloor>)
                 < sampleRate * 5
            then pts
            else emit t (detectBpmInChunk
                           (slice data \<lfloor>t * sampleRate\<rfloor>
                              \<lfloor>min (t + windowSize) duration * sampleRate\<rfloor>) sampleRate) pts)"
    by (simp add: window_step_def too_short_def startSample_def endSample_def Let_def)
  from run window_starts_member [OF pos, of t duration] window_starts_sorted [OF pos, of duration]
    body slice_length [of "\<lfloor>t * sampleRate\<rfloor>" "\<lfloor>min (t + windowSize) duration * sampleRate\<rfloor>" data]
  show ?thesis by blast
qed

text \<open>The track of 50 s at 1 Hz again, every 30 s, at the window that starts at 30 s.\<close>

theorem sequencer_windows_witness:
  "(0::real) \<le> 30
   \<and> analyzeBpmFromData (replicate 50 0) 1 50 30 =
       Some (foldl (\<lambda>pts t. window_step (replicate 50 0) 1 50 30 t pts) [] (window_starts 50 30))
   \<and> 30 \<in> set (window_starts 50 30)
   \<and> length (slice (replicate 50 (0::real)) \<lfloor>30 * 1 :: real\<rfloor> \<lfloor>min (30 + 30) 50 * 1 :: real\<rfloor>)
       = nat (\<lfloor>min (30 + 30) 50 * 1 :: real\<rfloor> - \<lfloor>30 * 1 :: real\<rfloor>)"
proof -
  note t = sequencer_windows [of 30 30 30 "replicate 50 0" 1 50 30 "[]"]
  have k: "\<exists>k::nat. (30::real) = real k * 30 \<and> (30::real) < 50"
    by (rule exI [of _ 1]) simp
  have h: "(0::real) \<le> 30" "(30::real) = (if (30::real) = 0 then 30 else 30)"
    "(30::real) = max 30 30" by simp_all
  have b: "0 \<le> \<lfloor>30 * 1 :: real\<rfloor>
            \<and> \<lfloor>30 * 1 :: real\<rfloor> \<le> \<lfloor>min (30 + 30) 50 * 1 :: real\<rfloor>
            \<and> \<lfloor>min (30 + 30) 50 * 1 :: real\<rfloor> \<le> int (length (replicate 50 (0::real)))"
    by simp
  note c = t [OF h]
  from c have run: "analyzeBpmFromData (replicate 50 0) 1 50 30 =
       Some (foldl (\<lambda>pts t. window_step (replicate 50 0) 1 50 30 t pts) [] (window_starts 50 30))"
    by (rule conjunct1)
  from c k have mem: "30 \<in> set (window_starts 50 30)"
    by simp
  from c b have len: "length (slice (replicate 50 (0::real)) \<lfloor>30 * 1 :: real\<rfloor>
                                \<lfloor>min (30 + 30) 50 * 1 :: real\<rfloor>)
       = nat (\<lfloor>min (30 + 30) 50 * 1 :: real\<rfloor> - \<lfloor>30 * 1 :: real\<rfloor>)"
    by (elim conjE) (erule mp, rule b)
  from h(1) run mem len show ?thesis
    by (intro conjI)
qed


lemma detectBpmInChunk_rate_zero: "detectBpmInChunk data 0 = None"
proof -
  let ?on = "onset_envelope (rms_envelope data)"
  have lags: "minLag 0 = 0" "maxLag 0 = 0"
    by (simp_all add: minLag_def maxLag_def)
  have w: "weightedSum 0 ?on 0 = None"
    by (simp add: weightedSum_def getCorrAt_def)
  have "search_lags 0 ?on = (- 1, - 1)"
    by (simp add: search_lags_def lags search_step_def w)
  then show ?thesis
    by (simp add: detectBpmInChunk_def Let_def)
qed

text \<open>
  Claim C6. When the estimator has no result for a window that is not skipped, and the
  timeline has a point already, a point is added at the window's start whose bpm is
  that of the last point; when the timeline is still empty, nothing is added.
\<close>

theorem carry_forward:
  assumes "\<not> too_short sampleRate duration windowSize startTime"
    and "detectBpmInChunk
           (slice data (startSample sampleRate startTime)
              (endSample sampleRate duration windowSize startTime)) sampleRate = None"
  shows "(points \<noteq> [] \<longrightarrow>
            window_step data sampleRate duration windowSize startTime points
              = points @ [\<lparr>time = startTime, bpm = bpm (last points)\<rparr>])
       \<and> (points = [] \<longrightarrow>
            window_step data sampleRate duration windowSize startTime points = [])
       \<and> emit startTime None points
           = (if points = [] then [] else points @ [\<lparr>time = startTime, bpm = bpm (last points)\<rparr>])"
  using assms by (simp add: window_step_def emit_def Let_def last_conv_nth)

text \<open>
  At a sample rate of 0 every weighted correlation is NaN and the estimator has no
  result: a second window repeats 120 bpm, a first window adds nothing.
\<close>

theorem carry_forward_witness:
  "\<not> too_short 0 60 30 30
   \<and> detectBpmInChunk (slice [] (startSample 0 30) (endSample 0 60 30 30)) 0 = None
   \<and> window_step [] 0 60 30 30 [\<lparr>time = 0, bpm = 120\<rparr>]
       = [\<lparr>time = 0, bpm = 120\<rparr>, \<lparr>time = 30, bpm = 120\<rparr>]
   \<and> window_step [] 0 60 30 0 [] = []"
proof -
  have s: "\<not> too_short 0 60 30 30" "\<not> too_short 0 60 30 0"
    by (simp_all add: too_short_def startSample_def endSample_def)
  from carry_forward [where data = "[]" and points = "[\<lparr>time = 0, bpm = 120\<rparr>]",
        OF s(1) detectBpmInChunk_rate_zero]
    carry_forward [where data = "[]" and points = "[]", OF s(2) detectBpmInChunk_rate_zero]
    s(1) detectBpmInChunk_rate_zero
  show ?thesis by simp
qed

text \<open>
  Claim C10. At a positive sample rate the estimator returns a number, never the
  outcome without an estimate: the range of lags is not empty and every lag in it has a
  weighted correlation that is at least 0, above the initial \<open>-1\<close>. So every window
  that is not skipped adds a point with a freshly estimated bpm, and the carry-forward
  branch is not taken.
\<close>

theorem estimator_always_estimates:
  assumes "0 < sampleRate"
  shows "(\<exists>b. detectBpmInChunk data sampleRate = Some b \<and> b \<noteq> 0)
       \<and> [minLag (sampleRate / 256)..maxLag (sampleRate / 256)] \<noteq> []
       \<and> list_all (\<lambda>lag. \<exists>w. weightedSum (sampleRate / 256) (onset_envelope (rms_envelope data)) lag
                              = Some w \<and> 0 \<le> w \<and> - 1 < w)
           [minLag (sampleRate / 256)..maxLag (sampleRate / 256)]
       \<and> (\<not> too_short sampleRate duration windowSize startTime \<longrightarrow>
            (\<exists>b. detectBpmInChunk
                    (slice data (startSample sampleRate startTime)
                       (endSample sampleRate duration windowSize startTime)) sampleRate = Some b
                \<and> window_step data sampleRate duration windowSize startTime points
                    = points @ [\<lparr>time = startTime, bpm = b\<rparr>]))"
proof -
  have rate: "0 < sampleRate / 256" using assms by simp
  have some: "\<exists>b. detectBpmInChunk d sampleRate = Some b \<and> b \<noteq> 0" for d
  proof -
    from detectBpmInChunk_some [OF assms, of d] obtain b
      where b: "detectBpmInChunk d sampleRate = Some b" by blast
    from detectBpmInChunk_bounds [OF b] have "b \<noteq> 0" by (simp add: minBpm_def)
    with b show ?thesis by blast
  qed
  note r = lag_range [OF rate]
  have nonempty: "[minLag (sampleRate / 256)..maxLag (sampleRate / 256)] \<noteq> []"
    using r(2) by simp
  have all: "list_all (\<lambda>lag. \<exists>w. weightedSum (sampleRate / 256)
                                  (onset_envelope (rms_envelope data)) lag
                              = Some w \<and> 0 \<le> w \<and> - 1 < w)
           [minLag (sampleRate / 256)..maxLag (sampleRate / 256)]"
    unfolding list_all_iff
  proof
    fix lag assume "lag \<in> set [minLag (sampleRate / 256)..maxLag (sampleRate / 256)]"
    with r(1) have "0 \<le> lag" by simp
    from weightedSum_nonneg [OF rate this, of "rms_envelope data"]
    show "\<exists>w. weightedSum (sampleRate / 256) (onset_envelope (rms_envelope data)) lag
                = Some w \<and> 0 \<le> w \<and> - 1 < w"
      by force
  qed
  have step: "\<exists>b. detectBpmInChunk
                    (slice data (startSample sampleRate startTime)
                       (endSample sampleRate duration windowSize startTime)) sampleRate = Some b
                \<and> window_step data sampleRate duration windowSize startTime points
                    = points @ [\<lparr>time = startTime, bpm = b\<rparr>]"
    if "\<not> too_short sampleRate duration windowSize startTime"
    using that some [of "slice data (startSample sampleRate startTime)
                       (endSample sampleRate duration windowSize startTime)"]
    by (auto simp: window_step_def emit_def Let_def)
  from some [of data] nonempty all step show ?thesis by blast
qed

text \<open>Ten samples at 1 Hz and the window that starts at 0.\<close>

theorem estimator_always_estimates_witness:
  "(0::real) < 1
   \<and> (\<exists>b. detectBpmInChunk (replicate 10 0) 1 = Some b \<and> b \<noteq> 0)
   \<and> \<not> too_short 1 10 30 0
   \<and> (\<exists>b. window_step (replicate 10 0) 1 10 30 0 [] = [\<lparr>time = 0, bpm = b\<rparr>])"
proof -
  have p: "(0::real) < 1" by simp
  have s: "\<not> too_short 1 10 30 0"
    by (simp add: too_short_def startSample_def endSample_def)
  note t = estimator_always_estimates [OF p, where data = "replicate 10 0" and duration = 10
      and windowSize = 30 and startTime = 0 and points = "[]"]
  from t s
  have "\<exists>b. window_step (replicate 10 0) 1 10 30 0 [] = [\<lparr>time = 0, bpm = b\<rparr>]"
    by auto
  moreover from t
  have "\<exists>b. detectBpmInChunk (replicate 10 0) 1 = Some b \<and> b \<noteq> 0"
    by (rule conjunct1)
  ultimately show ?thesis using p s by blast
qed









end
